theory Spec2Isabelle
  imports Complex_Main "HOL-Library.Word" "HOL-Library.Log_Nat"
begin

unbundle bit_operations_syntax

section \<open>Single-precision arithmetic as used by cubic.c\<close>

text \<open>
  The controller computes its backoff factors and its New-Reno estimate in C \<open>float\<close>.
  The model below is IEEE 754 binary32 with round-to-nearest, ties-to-even, every operation
  rounded once to \<open>float\<close> (FLT_EVAL_METHOD 0, as on x86-64 and AArch64). A finite value is
  the rational number it denotes. Zero carries no sign: every zero that this program
  divides by is the conversion of an unsigned integer, hence \<open>+0\<close>, and the conversion of
  \<open>-0\<close> to an integer is \<open>0\<close> as well.
\<close>

datatype float32 = Finite rat | PInf | NInf | NaN

text \<open>\<open>ilog2 x\<close> is \<open>\<lfloor>log\<^sub>2 x\<rfloor>\<close> for a positive rational \<open>x\<close>.\<close>

definition ilog2 :: "rat \<Rightarrow> int" where
  "ilog2 x = (if 1 \<le> x then bitlen \<lfloor>x\<rfloor> - 1 else - bitlen (\<lceil>1 / x\<rceil> - 1))"

text \<open>Round to the nearest integer, ties to even.\<close>

definition rne :: "rat \<Rightarrow> int" where
  "rne x = (let f = \<lfloor>x\<rfloor>; d = x - of_int f in
            if d < 1 / 2 then f
            else if 1 / 2 < d then f + 1
            else if even f then f else f + 1)"

text \<open>
  Rounding to 24 significant bits with the exponent unbounded above and gradual underflow
  below (the least exponent of a binary32 number is \<open>-126\<close>, the unit in its last place
  \<open>2\<^sup>-\<^sup>1\<^sup>4\<^sup>9\<close>).
\<close>

definition round24 :: "rat \<Rightarrow> rat" where
  "round24 x = (if x = 0 then 0
                else let e = max (ilog2 \<bar>x\<bar>) (- 126) - 23
                     in of_int (rne (x / 2 powi e)) * 2 powi e)"

definition to_float32 :: "rat \<Rightarrow> float32" where
  "to_float32 x = (let r = round24 x in
                   if 2 ^ 128 \<le> r then PInf
                   else if r \<le> - (2 ^ 128) then NInf
                   else Finite r)"

definition fneg :: "float32 \<Rightarrow> float32" where
  "fneg a = (case a of Finite x \<Rightarrow> Finite (- x) | PInf \<Rightarrow> NInf | NInf \<Rightarrow> PInf | NaN \<Rightarrow> NaN)"

fun fadd :: "float32 \<Rightarrow> float32 \<Rightarrow> float32" where
  "fadd (Finite x) (Finite y) = to_float32 (x + y)"
| "fadd NaN _ = NaN"
| "fadd _ NaN = NaN"
| "fadd PInf NInf = NaN"
| "fadd NInf PInf = NaN"
| "fadd PInf _ = PInf"
| "fadd NInf _ = NInf"
| "fadd _ PInf = PInf"
| "fadd _ NInf = NInf"

definition fsub :: "float32 \<Rightarrow> float32 \<Rightarrow> float32" where
  "fsub a b = fadd a (fneg b)"

text \<open>The infinity with the sign of a non-zero rational.\<close>

definition inf_of_sign :: "rat \<Rightarrow> float32" where
  "inf_of_sign s = (if 0 < s then PInf else NInf)"

fun fmul :: "float32 \<Rightarrow> float32 \<Rightarrow> float32" where
  "fmul (Finite x) (Finite y) = to_float32 (x * y)"
| "fmul NaN _ = NaN"
| "fmul _ NaN = NaN"
| "fmul (Finite x) PInf = (if x = 0 then NaN else inf_of_sign x)"
| "fmul (Finite x) NInf = (if x = 0 then NaN else inf_of_sign (- x))"
| "fmul PInf (Finite y) = (if y = 0 then NaN else inf_of_sign y)"
| "fmul NInf (Finite y) = (if y = 0 then NaN else inf_of_sign (- y))"
| "fmul PInf PInf = PInf"
| "fmul NInf NInf = PInf"
| "fmul PInf NInf = NInf"
| "fmul NInf PInf = NInf"

fun fdiv :: "float32 \<Rightarrow> float32 \<Rightarrow> float32" where
  "fdiv (Finite x) (Finite y) =
     (if y = 0 then (if x = 0 then NaN else inf_of_sign x) else to_float32 (x / y))"
| "fdiv NaN _ = NaN"
| "fdiv _ NaN = NaN"
| "fdiv (Finite x) PInf = Finite 0"
| "fdiv (Finite x) NInf = Finite 0"
| "fdiv PInf (Finite y) = (if y < 0 then NInf else PInf)"
| "fdiv NInf (Finite y) = (if y < 0 then PInf else NInf)"
| "fdiv PInf _ = NaN"
| "fdiv NInf _ = NaN"

type_synonym uint64_t = "64 word"

text \<open>The number a \<open>uint64_t\<close> denotes, and the conversions of integers to \<open>float\<close>: the value, rounded.\<close>

definition u64_value :: "uint64_t \<Rightarrow> rat" where
  "u64_value w = of_int (uint w)"

definition u64_to_float :: "uint64_t \<Rightarrow> float32" where
  "u64_to_float w = to_float32 (u64_value w)"

definition int_to_float :: "int \<Rightarrow> float32" where
  "int_to_float i = to_float32 (of_int i)"

text \<open>
  \<open>float\<close> to \<open>uint64_t\<close>: the fractional part is discarded; the behaviour is undefined
  (\<open>None\<close>) when the integral part is not a value of \<open>uint64_t\<close>, in particular for an
  infinity or a NaN.
\<close>

definition float_to_u64 :: "float32 \<Rightarrow> uint64_t option" where
  "float_to_u64 a = (case a of
       Finite x \<Rightarrow> if - 1 < x \<and> x < 2 ^ 64
                   then Some (word_of_int (if 0 \<le> x then \<lfloor>x\<rfloor> else \<lceil>x\<rceil>))
                   else None
     | _ \<Rightarrow> None)"

section \<open>The controller: \<open>src/picoquic/cubic.c\<close>\<close>

definition DEFAULT_TCP_MSS :: int where "DEFAULT_TCP_MSS = 1460"
definition MICROSEC_PER_SEC :: int where "MICROSEC_PER_SEC = 1000000"
definition kCubeScale :: int where "kCubeScale = 40"
definition kCubeCongestionWindowScale :: int where "kCubeCongestionWindowScale = 410"

text \<open>\<open>const float kBeta = 0.7f\<close> and \<open>kBetaLastMax = 0.85f\<close>: the literals, rounded.\<close>

definition kBeta :: float32 where "kBeta = to_float32 (7 / 10)"
definition kBetaLastMax :: float32 where "kBetaLastMax = to_float32 (85 / 100)"

datatype picoquic_cubic_alg_state_t =
  picoquic_cubic_alg_slow_start | picoquic_cubic_alg_congestion_avoidance

record picoquic_cubic_state_t =
  alg_state :: picoquic_cubic_alg_state_t
  epoch_start_time :: uint64_t
  estimated_nr_cwnd :: uint64_t
  last_max_cwnd :: uint64_t
  time_of_origin :: uint64_t
  origin_cwnd :: uint64_t
  last_target_cwnd :: uint64_t

text \<open>
  Modelled from the spec: the declaration of \<open>picoquic_path_t\<close> is in
  \<open>picoquic_internal.h\<close>, which is not among the sources. The record has the fields that
  cubic.c names, with the types of the specification's path view contract (\<open>u64\<close> each).
  \<open>total_stream_count\<close> holds the value the source reads through the pointer of that name;
  were the counter a signed \<open>int\<close>, the results below would be the same for every count
  from 1 to \<open>2\<^sup>2\<^sup>3 + 1\<close>, and for a count of 0 the infinities would be negative.
  \<open>congestion_alg_state\<close> is the owner slot, \<open>None\<close> for a null pointer. \<open>pacing_updates\<close>
  counts the calls of the transport's \<open>picoquic_update_pacing_data\<close>, which is outside
  cubic.c and recomputes pacing fields only.
\<close>

record picoquic_path_t =
  cwin :: uint64_t
  bytes_in_transit :: uint64_t
  rtt_min :: uint64_t
  total_stream_count :: uint64_t
  congestion_alg_state :: "picoquic_cubic_state_t option"
  pacing_updates :: nat

text \<open>
  Modelled from the spec: the notification enumeration is declared in a header that is not
  among the sources. The constructors are the values that \<open>picoquic_cubic_notify\<close> names;
  \<open>picoquic_congestion_notification_other\<close> stands for any other value (the \<open>default\<close>
  branches).
\<close>

datatype picoquic_congestion_notification_t =
    picoquic_congestion_notification_acknowledgement
  | picoquic_congestion_notification_repeat
  | picoquic_congestion_notification_timeout
  | picoquic_congestion_notification_spurious_repeat
  | picoquic_congestion_notification_rtt_measurement
  | picoquic_congestion_notification_other

text \<open>
  \<open>kCubeFactor\<close> is a file-scope \<open>static int\<close>. \<open>picoquic_cubic_init\<close> assigns it the value
  below, \<open>picoquic_cubic_process_ack\<close> reads it; the model passes it explicitly.
\<close>

definition kCubeFactor_init :: uint64_t where
  "kCubeFactor_init = (push_bit (nat kCubeScale) 1 div word_of_int kCubeCongestionWindowScale)
                        div word_of_int DEFAULT_TCP_MSS"

text \<open>
  \<open>picoquic_cubic_init\<close>. \<open>cwin_initial\<close> is the transport's \<open>PICOQUIC_CWIN_INITIAL\<close> (declared
  outside cubic.c); \<open>allocated\<close> tells whether \<open>malloc\<close> returned a block. The result is the
  new value of the static \<open>kCubeFactor\<close> and the path.
\<close>

definition picoquic_cubic_init :: "uint64_t \<Rightarrow> bool \<Rightarrow> picoquic_path_t \<Rightarrow> uint64_t \<times> picoquic_path_t" where
  "picoquic_cubic_init cwin_initial allocated path_x =
     (kCubeFactor_init,
      if allocated
      then path_x\<lparr> congestion_alg_state := Some \<lparr> alg_state = picoquic_cubic_alg_slow_start,
                        epoch_start_time = 0, estimated_nr_cwnd = 0, last_max_cwnd = 0,
                        time_of_origin = 0, origin_cwnd = 0, last_target_cwnd = 0 \<rparr>,
                    cwin := cwin_initial \<rparr>
      else path_x\<lparr> congestion_alg_state := None \<rparr>)"

text \<open>\<open>Beta\<close>: \<open>(n - 1 + kBeta) / n\<close> with \<open>n\<close> the stream count; \<open>n - 1\<close> is integer arithmetic.\<close>

definition Beta :: "picoquic_path_t \<Rightarrow> float32" where
  "Beta path_x = fdiv (fadd (u64_to_float (total_stream_count path_x - 1)) kBeta)
                      (u64_to_float (total_stream_count path_x))"

text \<open>\<open>Alpha\<close>: \<open>3 * n * n * (1-beta) / (1-beta)\<close>, the integer product first, left to right.\<close>

definition Alpha :: "picoquic_path_t \<Rightarrow> float32" where
  "Alpha path_x =
     (let beta = Beta path_x;
          n = total_stream_count path_x
      in fdiv (fmul (u64_to_float (3 * n * n)) (fsub (int_to_float 1) beta))
              (fsub (int_to_float 1) beta))"

definition BetaLastMax :: "picoquic_path_t \<Rightarrow> float32" where
  "BetaLastMax path_x = fdiv (fadd (u64_to_float (total_stream_count path_x - 1)) kBetaLastMax)
                             (u64_to_float (total_stream_count path_x))"

subsection \<open>\<open>picoquic_cubic_process_ack\<close>\<close>

text \<open>
  The block that starts a new epoch (lines 195 to 215). \<open>cbrt_u64 x\<close> stands for
  \<open>(uint64_t)cbrt(x)\<close> of the C library, applied to the 64-bit product.
\<close>

definition start_epoch ::
  "uint64_t \<Rightarrow> (uint64_t \<Rightarrow> uint64_t) \<Rightarrow> picoquic_path_t \<Rightarrow> uint64_t \<Rightarrow>
     picoquic_cubic_state_t \<Rightarrow> picoquic_cubic_state_t" where
  "start_epoch kCubeFactor cbrt_u64 path_x current_time cu_state =
     (if epoch_start_time cu_state = 0
      then let cu1 = cu_state\<lparr> epoch_start_time := current_time - rtt_min path_x,
                               estimated_nr_cwnd := cwin path_x \<rparr>
           in if last_max_cwnd cu1 \<le> cwin path_x
              then cu1\<lparr> time_of_origin := 0, origin_cwnd := cwin path_x \<rparr>
              else cu1\<lparr> time_of_origin := cbrt_u64 (kCubeFactor * (last_max_cwnd cu1 - cwin path_x)),
                        origin_cwnd := last_max_cwnd cu1 \<rparr>
      else cu_state)"

text \<open>
  Line 220, with the precedence of C: the shift count is \<open>10 / MICROSEC_PER_SEC\<close>. The
  result is stored in an \<open>int64_t\<close>; the word below is its two's complement representation.
\<close>

definition elapsed_time :: "picoquic_cubic_state_t \<Rightarrow> uint64_t \<Rightarrow> uint64_t" where
  "elapsed_time cu_state current_time =
     push_bit (nat (10 div MICROSEC_PER_SEC)) (current_time - epoch_start_time cu_state)"

text \<open>
  Line 224. The subtraction is in \<open>int64_t\<close> and \<open>abs\<close> is applied to an \<open>int64_t\<close>: the unit
  is compiled as C++ (it includes the C++ header \<open>collectagent.h\<close> and relies on the default
  arguments declared there), where \<open>abs\<close> resolves to the overload on \<open>long\<close>. Signed
  overflow in the subtraction or in \<open>abs\<close> is undefined behaviour (\<open>None\<close>). For
  differences below \<open>2\<^sup>3\<^sup>1\<close> in absolute value, as in every concrete run of this theory, the
  \<open>abs\<close> of C on \<open>int\<close> gives the same offset.
\<close>

definition offset_of :: "picoquic_cubic_state_t \<Rightarrow> uint64_t \<Rightarrow> uint64_t option" where
  "offset_of cu_state elapsed =
     (let d = sint (time_of_origin cu_state) - sint elapsed
      in if d \<le> - (2 ^ 63) \<or> 2 ^ 63 \<le> d then None else Some (word_of_int \<bar>d\<bar>))"

definition delta_congestion_window :: "uint64_t \<Rightarrow> uint64_t" where
  "delta_congestion_window offset =
     drop_bit (nat kCubeScale)
       (word_of_int kCubeCongestionWindowScale * offset * offset * offset * word_of_int DEFAULT_TCP_MSS)"

text \<open>Lines 230 to 232: the target window before the growth limitation.\<close>

definition target_congestion_window :: "picoquic_cubic_state_t \<Rightarrow> uint64_t \<Rightarrow> uint64_t \<Rightarrow> uint64_t" where
  "target_congestion_window cu_state elapsed delta =
     (if time_of_origin cu_state < elapsed
      then origin_cwnd cu_state + delta
      else origin_cwnd cu_state - delta)"

text \<open>
  Line 249: \<open>estimated_nr_cwnd += nb_bytes_acknowledged * (Alpha * DEFAULT_TCP_MSS) / estimated_nr_cwnd\<close>.
  The right-hand side is a \<open>float\<close>; the compound assignment converts \<open>estimated_nr_cwnd\<close>
  to \<open>float\<close>, adds, and converts the sum back to \<open>uint64_t\<close>.
\<close>

definition new_reno_update :: "picoquic_path_t \<Rightarrow> uint64_t \<Rightarrow> uint64_t \<Rightarrow> uint64_t option" where
  "new_reno_update path_x nb_bytes_acknowledged nr_cwnd =
     float_to_u64
       (fadd (u64_to_float nr_cwnd)
             (fdiv (fmul (u64_to_float nb_bytes_acknowledged)
                         (fmul (Alpha path_x) (int_to_float DEFAULT_TCP_MSS)))
                   (u64_to_float nr_cwnd)))"

definition picoquic_cubic_process_ack ::
  "uint64_t \<Rightarrow> (uint64_t \<Rightarrow> uint64_t) \<Rightarrow> picoquic_path_t \<Rightarrow> uint64_t \<Rightarrow> uint64_t \<Rightarrow>
     picoquic_path_t option" where
  "picoquic_cubic_process_ack kCubeFactor cbrt_u64 path_x current_time nb_bytes_acknowledged =
     (case congestion_alg_state path_x of
        None \<Rightarrow> Some path_x
      | Some cu_state \<Rightarrow>
          if bytes_in_transit path_x < cwin path_x
          then Some (path_x\<lparr> congestion_alg_state := Some (cu_state\<lparr> epoch_start_time := 0 \<rparr>) \<rparr>)
          else
            let cu1 = start_epoch kCubeFactor cbrt_u64 path_x current_time cu_state;
                elapsed = elapsed_time cu1 current_time
            in case offset_of cu1 elapsed of
                 None \<Rightarrow> None
               | Some offset \<Rightarrow>
                   let delta = delta_congestion_window offset;
                       target = target_congestion_window cu1 elapsed delta;
                       limit = cwin path_x + nb_bytes_acknowledged div 2;
                       target1 = (if limit < target then limit else target);
                       cu2 = cu1\<lparr> last_target_cwnd := target1 \<rparr>
                   in case new_reno_update path_x nb_bytes_acknowledged (estimated_nr_cwnd cu2) of
                        None \<Rightarrow> None
                      | Some nr \<Rightarrow>
                          let cu3 = cu2\<lparr> estimated_nr_cwnd := nr \<rparr>;
                              target2 = (if target1 < nr then nr else target1)
                          in Some (path_x\<lparr> congestion_alg_state := Some cu3, cwin := target2 \<rparr>))"

subsection \<open>\<open>picoquic_cubic_process_loss\<close>\<close>

definition picoquic_cubic_process_loss :: "picoquic_path_t \<Rightarrow> picoquic_path_t option" where
  "picoquic_cubic_process_loss path_x =
     (case congestion_alg_state path_x of
        None \<Rightarrow> Some path_x
      | Some cu_state \<Rightarrow>
          case (if cwin path_x + word_of_int DEFAULT_TCP_MSS < last_max_cwnd cu_state
                then float_to_u64 (fmul (BetaLastMax path_x) (u64_to_float (cwin path_x)))
                else Some (cwin path_x)) of
            None \<Rightarrow> None
          | Some last_max \<Rightarrow>
              case float_to_u64 (fmul (u64_to_float (cwin path_x)) (Beta path_x)) of
                None \<Rightarrow> None
              | Some new_cwin \<Rightarrow>
                  Some (path_x\<lparr> congestion_alg_state :=
                                   Some (cu_state\<lparr> last_max_cwnd := last_max, epoch_start_time := 0 \<rparr>),
                                 cwin := new_cwin \<rparr>))"

subsection \<open>\<open>picoquic_cubic_notify\<close>\<close>

text \<open>
  Modelled from the spec: \<open>picoquic_update_pacing_data\<close> is the transport's pacing hook,
  not part of cubic.c; it re-derives pacing from the new \<open>cwnd\<close>. The model records the call.
\<close>

definition picoquic_update_pacing_data :: "picoquic_path_t \<Rightarrow> picoquic_path_t" where
  "picoquic_update_pacing_data path_x = path_x\<lparr> pacing_updates := Suc (pacing_updates path_x) \<rparr>"

definition picoquic_cubic_notify ::
  "uint64_t \<Rightarrow> (uint64_t \<Rightarrow> uint64_t) \<Rightarrow> picoquic_path_t \<Rightarrow> picoquic_congestion_notification_t \<Rightarrow>
     uint64_t \<Rightarrow> uint64_t \<Rightarrow> uint64_t \<Rightarrow> uint64_t \<Rightarrow> picoquic_path_t option" where
  "picoquic_cubic_notify kCubeFactor cbrt_u64 path_x notification rtt_measurement
       nb_bytes_acknowledged lost_packet_number current_time =
     (case congestion_alg_state path_x of
        None \<Rightarrow> Some path_x
      | Some cu_state \<Rightarrow>
          map_option picoquic_update_pacing_data
            (case alg_state cu_state of
               picoquic_cubic_alg_slow_start \<Rightarrow>
                 (case notification of
                    picoquic_congestion_notification_acknowledgement \<Rightarrow>
                      Some (path_x\<lparr> cwin := cwin path_x + nb_bytes_acknowledged \<rparr>)
                  | picoquic_congestion_notification_repeat \<Rightarrow>
                      picoquic_cubic_process_loss
                        (path_x\<lparr> congestion_alg_state :=
                           Some (cu_state\<lparr> alg_state := picoquic_cubic_alg_congestion_avoidance \<rparr>) \<rparr>)
                  | picoquic_congestion_notification_timeout \<Rightarrow>
                      picoquic_cubic_process_loss
                        (path_x\<lparr> congestion_alg_state :=
                           Some (cu_state\<lparr> alg_state := picoquic_cubic_alg_congestion_avoidance \<rparr>) \<rparr>)
                  | _ \<Rightarrow> Some path_x)
             | picoquic_cubic_alg_congestion_avoidance \<Rightarrow>
                 (case notification of
                    picoquic_congestion_notification_acknowledgement \<Rightarrow>
                      picoquic_cubic_process_ack kCubeFactor cbrt_u64 path_x current_time
                        nb_bytes_acknowledged
                  | picoquic_congestion_notification_repeat \<Rightarrow> picoquic_cubic_process_loss path_x
                  | picoquic_congestion_notification_timeout \<Rightarrow> picoquic_cubic_process_loss path_x
                  | _ \<Rightarrow> Some path_x)))"

definition picoquic_cubic_delete :: "picoquic_path_t \<Rightarrow> picoquic_path_t" where
  "picoquic_cubic_delete path_x = path_x\<lparr> congestion_alg_state := None \<rparr>"


section \<open>Delivery of events by the transport\<close>

text \<open>
  An event as the transport delivers it: the arguments of \<open>picoquic_cubic_notify\<close> and
  the values the transport has stored in the fields of the path that the controller only
  reads, at the time of the call.
\<close>

record transport_event =
  ev_notification :: picoquic_congestion_notification_t
  ev_rtt_measurement :: uint64_t
  ev_nb_bytes_acknowledged :: uint64_t
  ev_lost_packet_number :: uint64_t
  ev_current_time :: uint64_t
  ev_bytes_in_transit :: uint64_t
  ev_rtt_min :: uint64_t
  ev_total_stream_count :: uint64_t

definition deliver ::
  "uint64_t \<Rightarrow> (uint64_t \<Rightarrow> uint64_t) \<Rightarrow> picoquic_path_t \<Rightarrow> transport_event \<Rightarrow> picoquic_path_t option" where
  "deliver kCubeFactor cbrt_u64 path_x e =
     picoquic_cubic_notify kCubeFactor cbrt_u64
       (path_x\<lparr> bytes_in_transit := ev_bytes_in_transit e, rtt_min := ev_rtt_min e,
                 total_stream_count := ev_total_stream_count e \<rparr>)
       (ev_notification e) (ev_rtt_measurement e) (ev_nb_bytes_acknowledged e)
       (ev_lost_packet_number e) (ev_current_time e)"

fun notify_all ::
  "uint64_t \<Rightarrow> (uint64_t \<Rightarrow> uint64_t) \<Rightarrow> picoquic_path_t \<Rightarrow> transport_event list \<Rightarrow> picoquic_path_t option" where
  "notify_all kCubeFactor cbrt_u64 path_x [] = Some path_x"
| "notify_all kCubeFactor cbrt_u64 path_x (e # es) =
     (case deliver kCubeFactor cbrt_u64 path_x e of
        None \<Rightarrow> None
      | Some path_y \<Rightarrow> notify_all kCubeFactor cbrt_u64 path_y es)"

section \<open>Formulas of the specification, for comparison\<close>

text \<open>
  The elapsed time as the specification writes it: the difference shifted left by 10, then
  divided by \<open>MICROSEC_PER_SEC\<close>, in \<open>uint64_t\<close>.
\<close>

definition elapsed_time_spec :: "uint64_t \<Rightarrow> uint64_t \<Rightarrow> uint64_t" where
  "elapsed_time_spec current_time epoch_start =
     push_bit 10 (current_time - epoch_start) div word_of_int MICROSEC_PER_SEC"

text \<open>
  The additive-increase coefficient as the specification writes it,
  \<open>3 n n (1 - Beta) / (1 + Beta)\<close>, in the same arithmetic as \<open>Alpha\<close>.
\<close>

definition Alpha_spec :: "picoquic_path_t \<Rightarrow> float32" where
  "Alpha_spec path_x =
     (let beta = Beta path_x;
          n = total_stream_count path_x
      in fdiv (fmul (u64_to_float (3 * n * n)) (fsub (int_to_float 1) beta))
              (fadd (int_to_float 1) beta))"



section \<open>Auxiliary notions for the statements\<close>

text \<open>A \<open>float\<close> that is not negative: a finite number \<open>\<ge> 0\<close>, \<open>+\<infinity>\<close>, or a NaN.\<close>

definition not_negative :: "float32 \<Rightarrow> bool" where
  "not_negative a = (case a of Finite x \<Rightarrow> 0 \<le> x | PInf \<Rightarrow> True | NInf \<Rightarrow> False | NaN \<Rightarrow> True)"

text \<open>
  Modelled from the spec: \<open>cbrt\<close> is a function of the C library, not of cubic.c; the
  specification gives \<open>time_of_origin\<close> as the floor of the cube root. \<open>floor_cbrt\<close> is the
  integer cube root \<open>\<lfloor>x\<^sup>1\<^sup>/\<^sup>3\<rfloor>\<close> of a 64-bit number, built bit by bit from bit 21 down. It
  stands for \<open>(uint64_t)cbrt(x)\<close> in the concrete runs only; the general statements hold for
  any function in that place.
\<close>

fun cbrt_bits :: "nat \<Rightarrow> int \<Rightarrow> int \<Rightarrow> int" where
  "cbrt_bits 0 x r = r"
| "cbrt_bits (Suc i) x r = cbrt_bits i x (if (r + 2 ^ i) ^ 3 \<le> x then r + 2 ^ i else r)"

definition floor_cbrt :: "uint64_t \<Rightarrow> uint64_t" where
  "floor_cbrt w = word_of_int (cbrt_bits 22 (uint w) 0)"

text \<open>
  The controller state of a path is fit for the New-Reno division: while an epoch is
  running, \<open>estimated_nr_cwnd\<close> is not zero.
\<close>

definition nr_estimate_ok :: "picoquic_path_t \<Rightarrow> bool" where
  "nr_estimate_ok path_x =
     (case congestion_alg_state path_x of
        None \<Rightarrow> True
      | Some cu_state \<Rightarrow> epoch_start_time cu_state = 0 \<or> estimated_nr_cwnd cu_state \<noteq> 0)"


text \<open>
  The origin of the cubic curve is consistent: the window delta at an offset of
  \<open>time_of_origin\<close>, before the shift by \<open>kCubeScale\<close>, does not exceed \<open>origin_cwnd\<close>
  shifted the other way. \<open>path_origin_consistent\<close> says so of the controller state of a path.
\<close>

definition origin_consistent :: "picoquic_cubic_state_t \<Rightarrow> bool" where
  "origin_consistent cu_state =
     (kCubeCongestionWindowScale * DEFAULT_TCP_MSS * uint (time_of_origin cu_state) ^ 3
        \<le> 2 ^ nat kCubeScale * uint (origin_cwnd cu_state))"


text \<open>The events of a list are free of loss signals: no \<open>Repeat\<close>, no \<open>Timeout\<close>.\<close>

definition loss_free :: "transport_event list \<Rightarrow> bool" where
  "loss_free es = list_all (\<lambda>e. ev_notification e \<noteq> picoquic_congestion_notification_repeat
                                \<and> ev_notification e \<noteq> picoquic_congestion_notification_timeout) es"

text \<open>The number of bytes acknowledged by the \<open>Acknowledgement\<close> events of a list.\<close>

definition acknowledged_total :: "transport_event list \<Rightarrow> int" where
  "acknowledged_total es =
     sum_list (map (\<lambda>e. if ev_notification e = picoquic_congestion_notification_acknowledgement
                         then uint (ev_nb_bytes_acknowledged e) else 0) es)"

section \<open>A concrete run\<close>

text \<open>
  A path with one stream and a minimal round-trip time of 50 ms, its controller not yet
  created, and three events: a timeout while the initial window of 15360 bytes is in
  flight, then two acknowledgements with the window fully used, 29200 bytes at time 1 s and
  1460 bytes at time 1.197 s. The runs take \<open>PICOQUIC_CWIN_INITIAL = 15360\<close> and
  \<open>floor_cbrt\<close> for the cube root.
\<close>

definition example_path :: picoquic_path_t where
  "example_path = \<lparr> cwin = 0, bytes_in_transit = 0, rtt_min = 50000, total_stream_count = 1,
                     congestion_alg_state = None, pacing_updates = 0 \<rparr>"

definition example_timeout :: transport_event where
  "example_timeout = \<lparr> ev_notification = picoquic_congestion_notification_timeout,
       ev_rtt_measurement = 0, ev_nb_bytes_acknowledged = 0, ev_lost_packet_number = 7,
       ev_current_time = 900000, ev_bytes_in_transit = 15360, ev_rtt_min = 50000,
       ev_total_stream_count = 1 \<rparr>"

definition example_ack_1 :: transport_event where
  "example_ack_1 = \<lparr> ev_notification = picoquic_congestion_notification_acknowledgement,
       ev_rtt_measurement = 0, ev_nb_bytes_acknowledged = 29200, ev_lost_packet_number = 0,
       ev_current_time = 1000000, ev_bytes_in_transit = 10752, ev_rtt_min = 50000,
       ev_total_stream_count = 1 \<rparr>"

definition example_ack_2 :: transport_event where
  "example_ack_2 = \<lparr> ev_notification = picoquic_congestion_notification_acknowledgement,
       ev_rtt_measurement = 0, ev_nb_bytes_acknowledged = 1460, ev_lost_packet_number = 0,
       ev_current_time = 1197000, ev_bytes_in_transit = 25352, ev_rtt_min = 50000,
       ev_total_stream_count = 1 \<rparr>"



section \<open>Properties\<close>

subsection \<open>The integer cube root\<close>



subsection \<open>Evaluation of the scaling primitives\<close>

lemma kBeta_value: "kBeta = Finite (11744051 / 16777216)"
  by code_simp

lemma kBetaLastMax_value: "kBetaLastMax = Finite (7130317 / 8388608)"
  by code_simp

lemma Beta_one_stream:
  "total_stream_count path_x = 1 \<Longrightarrow> Beta path_x = Finite (11744051 / 16777216)"
proof -
  have "fdiv (fadd (u64_to_float (1 - 1)) kBeta) (u64_to_float 1) = Finite (11744051 / 16777216)"
    by code_simp
  then show "total_stream_count path_x = 1 \<Longrightarrow> Beta path_x = Finite (11744051 / 16777216)"
    by (simp add: Beta_def)
qed

lemma BetaLastMax_one_stream:
  "total_stream_count path_x = 1 \<Longrightarrow> BetaLastMax path_x = Finite (7130317 / 8388608)"
proof -
  have "fdiv (fadd (u64_to_float (1 - 1)) kBetaLastMax) (u64_to_float 1) = Finite (7130317 / 8388608)"
    by code_simp
  then show "total_stream_count path_x = 1 \<Longrightarrow> BetaLastMax path_x = Finite (7130317 / 8388608)"
    by (simp add: BetaLastMax_def)
qed

lemma Alpha_one_stream:
  "total_stream_count path_x = 1 \<Longrightarrow> Alpha path_x = Finite 3"
proof -
  have "fdiv (fmul (u64_to_float (3 * 1 * 1)) (fsub (int_to_float 1) (Finite (11744051 / 16777216))))
             (fsub (int_to_float 1) (Finite (11744051 / 16777216))) = Finite 3"
    by code_simp
  then show "total_stream_count path_x = 1 \<Longrightarrow> Alpha path_x = Finite 3"
    by (simp add: Alpha_def Beta_one_stream)
qed

lemma Alpha_spec_one_stream:
  "total_stream_count path_x = 1 \<Longrightarrow> Alpha_spec path_x = Finite (1110257 / 2097152)"
proof -
  have "fdiv (fmul (u64_to_float (3 * 1 * 1)) (fsub (int_to_float 1) (Finite (11744051 / 16777216))))
             (fadd (int_to_float 1) (Finite (11744051 / 16777216))) = Finite (1110257 / 2097152)"
    by code_simp
  then show "total_stream_count path_x = 1 \<Longrightarrow> Alpha_spec path_x = Finite (1110257 / 2097152)"
    by (simp add: Alpha_spec_def Beta_one_stream)
qed

subsection \<open>Powers of two and the binary logarithm\<close>

lemma powi2_less_cancel: "(2::rat) powi a < 2 powi b \<Longrightarrow> a < b"
  using power_int_increasing [of b a "2::rat"] by (cases "a < b") auto

lemma powi2_le_cancel: "(2::rat) powi a \<le> 2 powi b \<Longrightarrow> a \<le> b"
  using power_int_strict_increasing [of b a "2::rat"] by (cases "a \<le> b") auto

lemma ilog2_bounds:
  assumes "0 < x"
  shows "2 powi (ilog2 x) \<le> x" and "x < 2 powi (ilog2 x + 1)"
proof -
  have "2 powi (ilog2 x) \<le> x \<and> x < 2 powi (ilog2 x + 1)"
  proof (cases "1 \<le> x")
    case True
    define n where "n = \<lfloor>x\<rfloor>"
    from True have n1: "1 \<le> n" by (simp add: n_def)
    then have n0: "0 < n" by simp
    have b: "2 ^ nat (bitlen n - 1) \<le> n" "n < 2 ^ nat (bitlen n)"
      using bitlen_bounds [OF n0] by simp_all
    have bpos: "1 \<le> bitlen n" using n0 by (simp add: bitlen_alt_def)
    have il: "ilog2 x = bitlen n - 1" using True by (simp add: ilog2_def n_def)
    have "(2::rat) powi (bitlen n - 1) = 2 ^ nat (bitlen n - 1)"
      using bpos by (simp add: power_int_nonneg_exp)
    also have "\<dots> = of_int (2 ^ nat (bitlen n - 1))" by simp
    also have "\<dots> \<le> of_int n" using b(1) by (simp only: of_int_le_iff)
    also have "\<dots> \<le> x" by (simp add: n_def)
    finally have lo: "2 powi (ilog2 x) \<le> x" by (simp add: il)
    have "x < of_int (n + 1)" using floor_correct [of x] by (simp add: n_def)
    also have "\<dots> \<le> of_int (2 ^ nat (bitlen n))" using b(2) by (simp only: of_int_le_iff)
    also have "\<dots> = (2::rat) ^ nat (bitlen n)" by simp
    also have "\<dots> = 2 powi (bitlen n)" using bpos by (simp add: power_int_nonneg_exp)
    finally have "x < 2 powi (ilog2 x + 1)" by (simp add: il)
    with lo show ?thesis by simp
  next
    case False
    define y where "y = 1 / x"
    define m where "m = \<lceil>y\<rceil> - 1"
    from False assms have y1: "1 < y" by (simp add: y_def)
    then have "2 \<le> \<lceil>y\<rceil>" by (simp add: le_ceiling_iff)
    then have m0: "0 < m" by (simp add: m_def)
    have b: "2 ^ nat (bitlen m - 1) \<le> m" "m < 2 ^ nat (bitlen m)"
      using bitlen_bounds [OF m0] by simp_all
    have bpos: "1 \<le> bitlen m" using m0 by (simp add: bitlen_alt_def)
    have il: "ilog2 x = - bitlen m" using False by (simp add: ilog2_def m_def y_def)
    have "y \<le> of_int (m + 1)" by (simp add: m_def)
    also have "\<dots> \<le> of_int (2 ^ nat (bitlen m))" using b(2) by (simp only: of_int_le_iff)
    also have "\<dots> = (2::rat) ^ nat (bitlen m)" by simp
    finally have "1 / x \<le> 2 ^ nat (bitlen m)" by (simp add: y_def)
    then have "1 / 2 ^ nat (bitlen m) \<le> x" using assms
      by (simp add: field_simps)
    moreover have "(2::rat) powi (- bitlen m) = 1 / 2 ^ nat (bitlen m)"
      using bpos by (simp add: power_int_minus_divide power_int_nonneg_exp)
    ultimately have lo: "2 powi (ilog2 x) \<le> x" by (simp add: il)
    have my: "of_int m < y" using ceiling_correct [of y] by (simp add: m_def)
    have "(2::rat) ^ nat (bitlen m - 1) = of_int (2 ^ nat (bitlen m - 1))" by simp
    also have "\<dots> \<le> of_int m" using b(1) by (simp only: of_int_le_iff)
    also have "\<dots> < y" by (rule my)
    finally have "(2::rat) ^ nat (bitlen m - 1) < 1 / x" by (simp add: y_def)
    then have "x < 1 / 2 ^ nat (bitlen m - 1)" using assms by (simp add: field_simps)
    moreover have "(2::rat) powi (- bitlen m + 1) = 1 / 2 ^ nat (bitlen m - 1)"
    proof -
      have "- bitlen m + 1 = - (bitlen m - 1)" by simp
      then show ?thesis using bpos by (simp only: power_int_minus_divide) (simp add: power_int_nonneg_exp)
    qed
    ultimately have "x < 2 powi (ilog2 x + 1)" by (simp add: il)
    with lo show ?thesis by simp
  qed
  then show "2 powi (ilog2 x) \<le> x" and "x < 2 powi (ilog2 x + 1)" by simp_all
qed

lemma ilog2_unique:
  assumes "0 < x" "2 powi e \<le> x" "x < 2 powi (e + 1)"
  shows "ilog2 x = e"
proof -
  have "(2::rat) powi e < 2 powi (ilog2 x + 1)"
    using assms(2) ilog2_bounds(2) [OF assms(1)] by simp
  then have a: "e < ilog2 x + 1" by (rule powi2_less_cancel)
  have "(2::rat) powi (ilog2 x) < 2 powi (e + 1)"
    using assms(3) ilog2_bounds(1) [OF assms(1)] by simp
  then have "ilog2 x < e + 1" by (rule powi2_less_cancel)
  with a show ?thesis by simp
qed

lemma ilog2_mono:
  assumes "0 < x" "x \<le> y"
  shows "ilog2 x \<le> ilog2 y"
proof -
  have "0 < y" using assms by simp
  have "(2::rat) powi (ilog2 x) \<le> x" using ilog2_bounds(1) [OF assms(1)] .
  also have "x \<le> y" by fact
  also have "y < 2 powi (ilog2 y + 1)" using ilog2_bounds(2) [OF \<open>0 < y\<close>] .
  finally have "ilog2 x < ilog2 y + 1" by (rule powi2_less_cancel)
  then show ?thesis by simp
qed

subsection \<open>Rounding to the nearest integer\<close>

lemma rne_of_int: "rne (of_int k) = k"
  by (simp add: rne_def)

lemma rne_cases:
  "rne x = \<lfloor>x\<rfloor> \<or> rne x = \<lfloor>x\<rfloor> + 1"
  by (simp add: rne_def Let_def)

lemma rne_char:
  "(rne x = \<lfloor>x\<rfloor> \<and> x - of_int \<lfloor>x\<rfloor> \<le> 1 / 2)
   \<or> (rne x = \<lfloor>x\<rfloor> + 1 \<and> 1 / 2 \<le> x - of_int \<lfloor>x\<rfloor>)"
  unfolding rne_def Let_def by (cases "x - of_int \<lfloor>x\<rfloor> < 1 / 2") auto

lemma rne_upper: "of_int (rne x) \<le> x + 1 / 2"
  using rne_char [of x] of_int_floor_le [of x] by (elim disjE conjE) (simp_all, linarith+)

lemma rne_lower: "x - 1 / 2 \<le> of_int (rne x)"
proof -
  have f: "x < of_int \<lfloor>x\<rfloor> + 1" using floor_correct [of x] by simp
  from rne_char [of x] show ?thesis
  proof (elim disjE conjE)
    assume a: "rne x = \<lfloor>x\<rfloor>" and b: "x - of_int \<lfloor>x\<rfloor> \<le> 1 / 2"
    from b have "x - 1 / 2 \<le> of_int \<lfloor>x\<rfloor>" by linarith
    then show ?thesis by (simp only: a)
  next
    assume a: "rne x = \<lfloor>x\<rfloor> + 1"
    from f have "x - 1 / 2 \<le> of_int \<lfloor>x\<rfloor> + 1" by linarith
    then show ?thesis by (simp add: a)
  qed
qed

lemma rne_mono:
  assumes "x \<le> y"
  shows "rne x \<le> rne y"
proof (cases "\<lfloor>x\<rfloor> < \<lfloor>y\<rfloor>")
  case True
  have "rne x \<le> \<lfloor>x\<rfloor> + 1" using rne_cases [of x] by auto
  also have "\<dots> \<le> \<lfloor>y\<rfloor>" using True by simp
  also have "\<dots> \<le> rne y" using rne_cases [of y] by auto
  finally show ?thesis .
next
  case False
  with assms have eq: "\<lfloor>x\<rfloor> = \<lfloor>y\<rfloor>" using floor_mono [of x y] by simp
  from assms have "x - of_int \<lfloor>y\<rfloor> \<le> y - of_int \<lfloor>y\<rfloor>" by simp
  then show ?thesis
    by (auto simp add: rne_def Let_def eq)
qed

lemma rne_minus: "rne (- x) = - rne x"
proof (cases "x = of_int \<lfloor>x\<rfloor>")
  case True
  then obtain k where k: "x = of_int k" ..
  have "rne (- of_int k) = rne (of_int (- k))" by simp
  also have "\<dots> = - k" by (rule rne_of_int)
  finally show ?thesis by (simp add: k rne_of_int)
next
  case False
  then have fl: "\<lfloor>- x\<rfloor> = - \<lfloor>x\<rfloor> - 1"
    by (simp add: floor_minus ceiling_altdef)
  have d0: "0 < x - of_int \<lfloor>x\<rfloor>" using False of_int_floor_le [of x] by linarith
  show ?thesis
    using d0 by (auto simp add: rne_def Let_def fl field_simps)
qed

subsection \<open>Rounding to 24 significant bits\<close>

lemma round24_zero: "round24 0 = 0"
  by (simp add: round24_def)

lemma round24_pos_unfold:
  "0 < x \<Longrightarrow> round24 x = of_int (rne (x / 2 powi (max (ilog2 x) (- 126) - 23)))
                              * 2 powi (max (ilog2 x) (- 126) - 23)"
  by (simp add: round24_def Let_def)

lemma round24_minus: "round24 (- x) = - round24 x"
  by (simp add: round24_def Let_def rne_minus)

lemma round24_nonneg:
  assumes "0 \<le> x"
  shows "0 \<le> round24 x"
proof (cases "x = 0")
  case True
  then show ?thesis by (simp add: round24_zero)
next
  case False
  with assms have x: "0 < x" by simp
  define e where "e = max (ilog2 x) (- 126) - 23"
  have "0 \<le> x / 2 powi e" using x by simp
  then have "rne 0 \<le> rne (x / 2 powi e)" by (rule rne_mono)
  moreover have "rne 0 = 0" using rne_of_int [of 0] by simp
  ultimately have "0 \<le> rne (x / 2 powi e)" by simp
  then have "(0::rat) \<le> of_int (rne (x / 2 powi e)) * 2 powi e" by simp
  then show ?thesis by (simp add: round24_pos_unfold [OF x] e_def)
qed

lemma round24_mono_pos:
  assumes x: "0 < x" and xy: "x \<le> y"
  shows "round24 x \<le> round24 y"
proof -
  from x xy have y: "0 < y" by simp
  define ex where "ex = max (ilog2 x) (- 126) - 23"
  define ey where "ey = max (ilog2 y) (- 126) - 23"
  have rx: "round24 x = of_int (rne (x / 2 powi ex)) * 2 powi ex"
    by (simp add: round24_pos_unfold [OF x] ex_def)
  have ry: "round24 y = of_int (rne (y / 2 powi ey)) * 2 powi ey"
    by (simp add: round24_pos_unfold [OF y] ey_def)
  have le: "ex \<le> ey" using ilog2_mono [OF x xy] by (simp add: ex_def ey_def)
  show ?thesis
  proof (cases "ex = ey")
    case True
    have "x / 2 powi ey \<le> y / 2 powi ey" using xy by (simp add: divide_right_mono)
    then have "rne (x / 2 powi ey) \<le> rne (y / 2 powi ey)" by (rule rne_mono)
    then have "(of_int (rne (x / 2 powi ey)) :: rat) \<le> of_int (rne (y / 2 powi ey))"
      by (simp only: of_int_le_iff)
    then have "(of_int (rne (x / 2 powi ey)) :: rat) * 2 powi ey \<le> of_int (rne (y / 2 powi ey)) * 2 powi ey"
      by (rule mult_right_mono) simp
    then show ?thesis by (simp add: rx ry True)
  next
    case False
    with le have lt: "ex + 1 \<le> ey" by simp
    \<comment> \<open>the rounded x does not exceed the top of its binade\<close>
    have "ilog2 x + 1 \<le> ex + 24" by (simp add: ex_def)
    then have "(2::rat) powi (ilog2 x + 1) \<le> 2 powi (ex + 24)"
      by (intro power_int_increasing) simp_all
    with ilog2_bounds(2) [OF x] have "x < 2 powi (ex + 24)" by simp
    also have "(2::rat) powi (ex + 24) = 2 powi ex * 2 ^ 24"
      by (simp add: power_int_add)
    finally have "x / 2 powi ex < 2 ^ 24" by (simp add: field_simps)
    then have "x / 2 powi ex \<le> of_int (2 ^ 24)" by simp
    then have "rne (x / 2 powi ex) \<le> rne (of_int (2 ^ 24))" by (rule rne_mono)
    then have "rne (x / 2 powi ex) \<le> 2 ^ 24" by (simp only: rne_of_int)
    then have "(of_int (rne (x / 2 powi ex)) :: rat) \<le> of_int (2 ^ 24)"
      by (simp only: of_int_le_iff)
    then have "(of_int (rne (x / 2 powi ex)) :: rat) * 2 powi ex \<le> of_int (2 ^ 24) * 2 powi ex"
      by (rule mult_right_mono) simp
    then have a: "round24 x \<le> 2 powi (ex + 24)"
      by (simp add: rx power_int_add mult.commute)
    have b: "(2::rat) powi (ex + 24) \<le> 2 powi (ey + 23)"
      using lt by (intro power_int_increasing) simp_all
    \<comment> \<open>the rounded y is at least the bottom of its binade\<close>
    from lt have "ey + 23 = ilog2 y" by (simp add: ex_def ey_def max_def split: if_splits)
    with ilog2_bounds(1) [OF y] have "2 powi (ey + 23) \<le> y" by simp
    moreover have "(2::rat) powi (ey + 23) = 2 powi ey * 2 ^ 23"
      by (simp add: power_int_add)
    ultimately have "2 ^ 23 \<le> y / 2 powi ey" by (simp add: field_simps)
    then have "of_int (2 ^ 23) \<le> y / 2 powi ey" by simp
    then have "rne (of_int (2 ^ 23)) \<le> rne (y / 2 powi ey)" by (rule rne_mono)
    then have "2 ^ 23 \<le> rne (y / 2 powi ey)" by (simp only: rne_of_int)
    then have "(of_int (2 ^ 23) :: rat) \<le> of_int (rne (y / 2 powi ey))"
      by (simp only: of_int_le_iff)
    then have "(of_int (2 ^ 23) :: rat) * 2 powi ey \<le> of_int (rne (y / 2 powi ey)) * 2 powi ey"
      by (rule mult_right_mono) simp
    then have c: "2 powi (ey + 23) \<le> round24 y"
      by (simp add: ry power_int_add mult.commute)
    from a b c show ?thesis by linarith
  qed
qed

lemma round24_mono:
  assumes "x \<le> y"
  shows "round24 x \<le> round24 y"
proof -
  consider "0 < x" | "x \<le> 0" "0 \<le> y" | "y < 0" by linarith
  then show ?thesis
  proof cases
    case 1
    then show ?thesis using assms by (rule round24_mono_pos)
  next
    case 2
    from 2(1) have "0 \<le> round24 (- x)" by (intro round24_nonneg) simp
    then have "round24 x \<le> 0" by (simp add: round24_minus)
    also have "0 \<le> round24 y" using 2(2) by (rule round24_nonneg)
    finally show ?thesis .
  next
    case 3
    then have "0 < - y" "- y \<le> - x" using assms by simp_all
    then have "round24 (- y) \<le> round24 (- x)" by (rule round24_mono_pos)
    then show ?thesis by (simp add: round24_minus)
  qed
qed

lemma round24_error:
  assumes "2 powi (- 126) \<le> x"
  shows "\<bar>round24 x - x\<bar> \<le> x / 2 ^ 24"
proof -
  have p: "(0::rat) < 2 powi (- 126)" by simp
  with assms have x: "0 < x" by linarith
  have "(2::rat) powi (- 126) < 2 powi (ilog2 x + 1)"
    using assms ilog2_bounds(2) [OF x] by linarith
  then have "- 126 < ilog2 x + 1" by (rule powi2_less_cancel)
  then have il: "max (ilog2 x) (- 126) = ilog2 x" by simp
  define e where "e = ilog2 x - 23"
  have r: "round24 x = of_int (rne (x / 2 powi e)) * 2 powi e"
    by (simp add: round24_pos_unfold [OF x] il e_def)
  have pe: "(0::rat) < 2 powi e" by simp
  have "\<bar>of_int (rne (x / 2 powi e)) - x / 2 powi e\<bar> \<le> 1 / 2"
    using rne_upper [of "x / 2 powi e"] rne_lower [of "x / 2 powi e"] by linarith
  then have "\<bar>of_int (rne (x / 2 powi e)) - x / 2 powi e\<bar> * 2 powi e \<le> 1 / 2 * 2 powi e"
    by (rule mult_right_mono) simp
  moreover have "\<bar>of_int (rne (x / 2 powi e)) - x / 2 powi e\<bar> * 2 powi e
                 = \<bar>of_int (rne (x / 2 powi e)) * 2 powi e - x\<bar>"
  proof -
    have "\<bar>of_int (rne (x / 2 powi e)) - x / 2 powi e\<bar> * 2 powi e
          = \<bar>(of_int (rne (x / 2 powi e)) - x / 2 powi e) * 2 powi e\<bar>"
      by (simp add: abs_mult)
    also have "(of_int (rne (x / 2 powi e)) - x / 2 powi e) * 2 powi e
               = of_int (rne (x / 2 powi e)) * 2 powi e - x"
      by (simp add: left_diff_distrib)
    finally show ?thesis .
  qed
  ultimately have "\<bar>round24 x - x\<bar> \<le> 1 / 2 * 2 powi e" by (simp add: r)
  also have "1 / 2 * (2::rat) powi e = 2 powi (ilog2 x) / 2 ^ 24"
  proof -
    have "ilog2 x = e + 23" by (simp add: e_def)
    then have "(2::rat) powi (ilog2 x) = 2 powi e * 2 ^ 23" by (simp add: power_int_add)
    then show ?thesis by simp
  qed
  also have "\<dots> \<le> x / 2 ^ 24"
    using ilog2_bounds(1) [OF x] by (simp add: divide_right_mono)
  finally show ?thesis .
qed

lemma round24_exact:
  assumes m: "0 < m" "m < 2 ^ 24" and k: "- 149 \<le> k"
  shows "round24 (of_int m * 2 powi k) = of_int m * 2 powi k"
proof -
  define x :: rat where "x = of_int m * 2 powi k"
  have x: "0 < x" using m(1) by (simp add: x_def)
  have "(of_int m :: rat) < of_int (2 ^ 24)" using m(2) by (simp only: of_int_less_iff)
  then have "(of_int m :: rat) * 2 powi k < of_int (2 ^ 24) * 2 powi k"
    by (rule mult_strict_right_mono) simp
  then have "x < 2 powi (k + 24)" by (simp add: x_def power_int_add mult.commute)
  with ilog2_bounds(1) [OF x] have "(2::rat) powi (ilog2 x) < 2 powi (k + 24)" by linarith
  then have "ilog2 x < k + 24" by (rule powi2_less_cancel)
  define e where "e = max (ilog2 x) (- 126) - 23"
  have ek: "e \<le> k" using \<open>ilog2 x < k + 24\<close> k by (simp add: e_def)
  have r: "round24 x = of_int (rne (x / 2 powi e)) * 2 powi e"
    by (simp add: round24_pos_unfold [OF x] e_def)
  have "(2::rat) powi k = 2 powi (k - e) * 2 powi e"
    by (simp flip: power_int_add)
  then have xe: "x = of_int m * 2 powi (k - e) * 2 powi e" by (simp add: x_def)
  have "(2::rat) powi (k - e) = 2 ^ nat (k - e)"
    using ek by (simp add: power_int_nonneg_exp)
  then have "x / 2 powi e = of_int (m * 2 ^ nat (k - e))"
    by (simp add: xe)
  then have "rne (x / 2 powi e) = m * 2 ^ nat (k - e)" by (simp only: rne_of_int)
  then have "round24 x = of_int (m * 2 ^ nat (k - e)) * 2 powi e" by (simp only: r)
  also have "\<dots> = of_int m * 2 powi (k - e) * 2 powi e"
    using \<open>(2::rat) powi (k - e) = 2 ^ nat (k - e)\<close> by simp
  also have "\<dots> = x" by (simp only: xe [symmetric])
  finally show ?thesis by (simp add: x_def)
qed

subsection \<open>Conversions and signs of \<open>float\<close> results\<close>

lemma to_float32_finite:
  assumes "- (2 ^ 128) < round24 x" "round24 x < 2 ^ 128"
  shows "to_float32 x = Finite (round24 x)"
  using assms by (simp add: to_float32_def Let_def)

lemma round24_one: "round24 1 = 1"
  using round24_exact [of 1 0] by simp

lemma round24_2_64: "round24 (2 ^ 64) = 2 ^ 64"
  using round24_exact [of 1 64] by simp

lemma to_float32_between:
  assumes "lo \<le> x" "x \<le> hi" "round24 lo = lo" "round24 hi = hi" "- (2 ^ 128) < lo" "hi < 2 ^ 128"
  shows "to_float32 x = Finite (round24 x)" "lo \<le> round24 x" "round24 x \<le> hi"
proof -
  show a: "lo \<le> round24 x" using round24_mono [OF assms(1)] assms(3) by simp
  show b: "round24 x \<le> hi" using round24_mono [OF assms(2)] assms(4) by simp
  show "to_float32 x = Finite (round24 x)"
    using a b assms(5,6) by (intro to_float32_finite) linarith+
qed

lemma u64_value_bounds: "0 \<le> u64_value w" "u64_value w \<le> 2 ^ 64 - 1"
proof -
  show "0 \<le> u64_value w" unfolding u64_value_def by (simp only: of_int_0_le_iff uint_ge_0)
  have "uint w < 2 ^ 64" using uint_bounded [of w] by simp
  then have "uint w \<le> 2 ^ 64 - 1" by simp
  then have "(of_int (uint w) :: rat) \<le> of_int (2 ^ 64 - 1)" by (simp only: of_int_le_iff)
  then show "u64_value w \<le> 2 ^ 64 - 1" unfolding u64_value_def by (simp del: of_int_uint)
qed

lemma u64_value_ge_one:
  assumes "w \<noteq> 0"
  shows "1 \<le> u64_value w"
proof -
  from assms have "uint w \<noteq> 0" by (simp add: uint_0_iff)
  moreover have "0 \<le> uint w" by simp
  ultimately have "1 \<le> uint w" by linarith
  then have "(of_int 1 :: rat) \<le> of_int (uint w)" by (simp only: of_int_le_iff)
  then show ?thesis unfolding u64_value_def by (simp del: of_int_uint)
qed

lemma u64_to_float_finite:
  "u64_to_float w = Finite (round24 (u64_value w))"
  "0 \<le> round24 (u64_value w)"
  "round24 (u64_value w) \<le> 2 ^ 64"
proof -
  have hi: "u64_value w \<le> 2 ^ 64" using u64_value_bounds(2) [of w] by linarith
  from to_float32_between [OF u64_value_bounds(1) hi round24_zero round24_2_64]
  show "u64_to_float w = Finite (round24 (u64_value w))"
    "0 \<le> round24 (u64_value w)"
    "round24 (u64_value w) \<le> 2 ^ 64"
    by (simp_all add: u64_to_float_def)
qed

lemma u64_to_float_ge_one:
  assumes "w \<noteq> 0"
  shows "1 \<le> round24 (u64_value w)"
  using round24_mono [OF u64_value_ge_one [OF assms]] by (simp add: round24_one)

lemma to_float32_cases_nonneg:
  assumes "0 \<le> x"
  shows "to_float32 x = PInf \<or> (to_float32 x = Finite (round24 x) \<and> 0 \<le> round24 x)"
  using round24_nonneg [OF assms] by (simp add: to_float32_def Let_def)

lemma to_float32_not_negative:
  assumes "0 \<le> x"
  shows "not_negative (to_float32 x)"
  using to_float32_cases_nonneg [OF assms] by (auto simp add: not_negative_def)

lemma fmul_not_negative:
  assumes "not_negative a" "not_negative b"
  shows "not_negative (fmul a b)"
proof (cases a)
  case (Finite x)
  then have x: "0 \<le> x" using assms(1) by (simp add: not_negative_def)
  show ?thesis
  proof (cases b)
    case (Finite y)
    then have "0 \<le> y" using assms(2) by (simp add: not_negative_def)
    with x have "0 \<le> x * y" by simp
    then show ?thesis using \<open>a = Finite x\<close> Finite by (simp add: to_float32_not_negative)
  next
    case PInf
    then show ?thesis using \<open>a = Finite x\<close> x by (simp add: not_negative_def inf_of_sign_def)
  next
    case NInf
    then show ?thesis using assms(2) by (simp add: not_negative_def)
  next
    case NaN
    then show ?thesis using \<open>a = Finite x\<close> by (simp add: not_negative_def)
  qed
next
  case PInf
  show ?thesis
  proof (cases b)
    case (Finite y)
    then have "0 \<le> y" using assms(2) by (simp add: not_negative_def)
    then show ?thesis using PInf Finite by (simp add: not_negative_def inf_of_sign_def)
  next
    case NInf
    then show ?thesis using assms(2) by (simp add: not_negative_def)
  qed (simp_all add: PInf not_negative_def)
next
  case NInf
  then show ?thesis using assms(1) by (simp add: not_negative_def)
next
  case NaN
  then show ?thesis by (simp add: not_negative_def)
qed

lemma fdiv_not_negative:
  assumes "not_negative a" "0 < y"
  shows "not_negative (fdiv a (Finite y))"
proof (cases a)
  case (Finite x)
  then have "0 \<le> x" using assms(1) by (simp add: not_negative_def)
  then have "0 \<le> x / y" using assms(2) by simp
  then show ?thesis using Finite assms(2) by (simp add: to_float32_not_negative)
next
  case NInf
  then show ?thesis using assms(1) by (simp add: not_negative_def)
qed (use assms(2) in \<open>simp_all add: not_negative_def\<close>)

lemma fadd_ge_one:
  assumes "1 \<le> x" "not_negative b"
  shows "fadd (Finite x) b = NaN \<or> fadd (Finite x) b = PInf
         \<or> (\<exists>s. fadd (Finite x) b = Finite s \<and> 1 \<le> s)"
proof (cases b)
  case (Finite y)
  then have "0 \<le> y" using assms(2) by (simp add: not_negative_def)
  with assms(1) have xy: "1 \<le> x + y" by simp
  then have "0 \<le> x + y" by simp
  from to_float32_cases_nonneg [OF this] round24_mono [OF xy]
  show ?thesis by (auto simp add: Finite round24_one)
next
  case NInf
  then show ?thesis using assms(2) by (simp add: not_negative_def)
qed simp_all

lemma float_to_u64_ge_one:
  assumes "float_to_u64 (Finite s) = Some w" "1 \<le> s"
  shows "w \<noteq> 0"
proof -
  from assms have s: "s < 2 ^ 64" and w: "w = word_of_int \<lfloor>s\<rfloor>"
    by (auto simp add: float_to_u64_def split: if_splits)
  have "1 \<le> \<lfloor>s\<rfloor>" using assms(2) by simp
  moreover have "\<lfloor>s\<rfloor> < 2 ^ 64" using s by (simp add: floor_less_iff)
  ultimately have "uint (word_of_int \<lfloor>s\<rfloor> :: 64 word) = \<lfloor>s\<rfloor>"
    by (simp add: uint_word_of_int take_bit_int_eq_self)
  with \<open>1 \<le> \<lfloor>s\<rfloor>\<close> show ?thesis unfolding w by (metis uint_0_eq not_one_le_zero)
qed

lemma to_float32_zero: "to_float32 0 = Finite 0"
  by (simp add: to_float32_def round24_zero)

lemma to_float32_cases_nonpos:
  assumes "x \<le> 0"
  shows "to_float32 x = NInf \<or> (to_float32 x = Finite (round24 x) \<and> round24 x \<le> 0)"
  using round24_mono [OF assms] by (simp add: to_float32_def Let_def round24_zero)

lemma mul_div_same_not_negative:
  assumes "0 \<le> a"
  shows "not_negative (fdiv (fmul (Finite a) om) om)"
proof (cases om)
  case (Finite v)
  consider "v = 0" | "0 < v" | "v < 0" by linarith
  then show ?thesis
  proof cases
    case 1
    then show ?thesis by (simp add: Finite to_float32_zero not_negative_def)
  next
    case 2
    with assms have "0 \<le> a * v" by simp
    then have "not_negative (fmul (Finite a) (Finite v))" by (simp add: to_float32_not_negative)
    then show ?thesis unfolding Finite using 2 by (rule fdiv_not_negative)
  next
    case 3
    with assms have "a * v \<le> 0" by (simp add: mult_nonneg_nonpos)
    from to_float32_cases_nonpos [OF this] show ?thesis
    proof (elim disjE conjE)
      assume "to_float32 (a * v) = NInf"
      then show ?thesis using 3 by (simp add: Finite not_negative_def)
    next
      assume r: "to_float32 (a * v) = Finite (round24 (a * v))" and "round24 (a * v) \<le> 0"
      then have "0 \<le> round24 (a * v) / v" using 3 by (simp add: divide_nonpos_neg)
      then show ?thesis using 3 r by (simp add: Finite to_float32_not_negative)
    qed
  qed
next
  case PInf
  then show ?thesis by (simp add: not_negative_def inf_of_sign_def)
next
  case NInf
  then show ?thesis by (simp add: not_negative_def inf_of_sign_def)
next
  case NaN
  then show ?thesis by (simp add: not_negative_def)
qed

lemma Alpha_not_negative: "not_negative (Alpha path_x)"
proof -
  have "u64_to_float (3 * total_stream_count path_x * total_stream_count path_x)
        = Finite (round24 (u64_value (3 * total_stream_count path_x * total_stream_count path_x)))"
    by (rule u64_to_float_finite(1))
  moreover have "0 \<le> round24 (u64_value (3 * total_stream_count path_x * total_stream_count path_x))"
    by (rule u64_to_float_finite(2))
  ultimately show ?thesis
    by (simp add: Alpha_def Let_def mul_div_same_not_negative)
qed

lemma new_reno_update_nonzero:
  assumes "new_reno_update path_x nb_bytes_acknowledged nr_cwnd = Some nr"
    and "nr_cwnd \<noteq> 0"
  shows "nr \<noteq> 0"
proof -
  define d where "d = round24 (u64_value nr_cwnd)"
  have ud: "u64_to_float nr_cwnd = Finite d" by (simp add: d_def u64_to_float_finite(1))
  have d1: "1 \<le> d" unfolding d_def using assms(2) by (rule u64_to_float_ge_one)
  then have d0: "0 < d" by linarith
  have "not_negative (int_to_float DEFAULT_TCP_MSS)"
    by (simp add: int_to_float_def DEFAULT_TCP_MSS_def to_float32_not_negative)
  with Alpha_not_negative have m: "not_negative (fmul (Alpha path_x) (int_to_float DEFAULT_TCP_MSS))"
    by (rule fmul_not_negative)
  have "not_negative (u64_to_float nb_bytes_acknowledged)"
    by (simp add: u64_to_float_finite not_negative_def)
  from this m have "not_negative (fmul (u64_to_float nb_bytes_acknowledged)
                      (fmul (Alpha path_x) (int_to_float DEFAULT_TCP_MSS)))"
    by (rule fmul_not_negative)
  then have inc: "not_negative (fdiv (fmul (u64_to_float nb_bytes_acknowledged)
                      (fmul (Alpha path_x) (int_to_float DEFAULT_TCP_MSS))) (Finite d))"
    using d0 by (rule fdiv_not_negative)
  define inc where "inc = fdiv (fmul (u64_to_float nb_bytes_acknowledged)
                      (fmul (Alpha path_x) (int_to_float DEFAULT_TCP_MSS))) (Finite d)"
  from assms(1) have c: "float_to_u64 (fadd (Finite d) inc) = Some nr"
    by (simp add: new_reno_update_def ud inc_def)
  from fadd_ge_one [OF d1 inc [folded inc_def]] show ?thesis
  proof (elim disjE exE conjE)
    assume "fadd (Finite d) inc = NaN"
    with c show ?thesis by (simp add: float_to_u64_def)
  next
    assume "fadd (Finite d) inc = PInf"
    with c show ?thesis by (simp add: float_to_u64_def)
  next
    fix s assume "fadd (Finite d) inc = Finite s" "1 \<le> s"
    with c show ?thesis using float_to_u64_ge_one by simp
  qed
qed

lemma start_epoch_estimate:
  "estimated_nr_cwnd (start_epoch kCubeFactor cbrt_u64 path_x current_time cu_state)
   = (if epoch_start_time cu_state = 0 then cwin path_x else estimated_nr_cwnd cu_state)"
  by (simp add: start_epoch_def Let_def)

lemma process_ack_Some:
  assumes "congestion_alg_state path_x = Some cu_state"
    and "\<not> bytes_in_transit path_x < cwin path_x"
    and "picoquic_cubic_process_ack kCubeFactor cbrt_u64 path_x current_time nb_bytes_acknowledged = Some path_y"
  shows "\<exists>cu'. congestion_alg_state path_y = Some cu'
           \<and> new_reno_update path_x nb_bytes_acknowledged
                (estimated_nr_cwnd (start_epoch kCubeFactor cbrt_u64 path_x current_time cu_state))
               = Some (estimated_nr_cwnd cu')
           \<and> epoch_start_time cu' = epoch_start_time (start_epoch kCubeFactor cbrt_u64 path_x current_time cu_state)"
  using assms
  by (auto simp add: picoquic_cubic_process_ack_def Let_def split: option.splits)


subsection \<open>Scaling a rounded number down\<close>

lemma round24_pow2: "- 149 \<le> k \<Longrightarrow> round24 (2 powi k) = 2 powi k"
  using round24_exact [of 1 k] by simp

lemma int_less_from_rat: "(of_int a :: rat) < of_int b \<Longrightarrow> a \<le> b - 1"
  by simp

text \<open>
  Multiplying a rounded number by a factor not above the predecessor of 1 and rounding
  again does not exceed the number one started from.
\<close>

lemma round24_scale_down:
  assumes c: "1 \<le> c" and b: "0 \<le> b" "b \<le> 1 - 1 / 2 ^ 24"
  shows "round24 (round24 c * b) \<le> c"
proof -
  have c0: "0 < c" using c by linarith
  define L where "L = ilog2 c"
  define e where "e = L - 23"
  have "(2::rat) powi 0 \<le> c" using c by simp
  also have "c < 2 powi (L + 1)" unfolding L_def by (rule ilog2_bounds(2) [OF c0])
  finally have "0 < L + 1" by (rule powi2_less_cancel)
  then have L0: "0 \<le> L" by simp
  define y where "y = c / 2 powi e"
  define m where "m = rne y"
  have pe: "(0::rat) < 2 powi e" by simp
  have cy: "c = y * 2 powi e" by (simp add: y_def)
  have rc: "round24 c = of_int m * 2 powi e"
    using L0 by (simp add: round24_pos_unfold [OF c0] m_def y_def e_def L_def)
  have p23: "(2::rat) powi L = 2 ^ 23 * 2 powi e" by (simp add: e_def power_int_diff)
  have p24: "(2::rat) powi (L + 1) = 2 ^ 24 * 2 powi e" by (simp add: e_def power_int_add power_int_diff)
  have "2 powi L \<le> c" unfolding L_def by (rule ilog2_bounds(1) [OF c0])
  then have ylo: "2 ^ 23 \<le> y" by (simp add: y_def p23 field_simps)
  have "c < 2 powi (L + 1)" unfolding L_def by (rule ilog2_bounds(2) [OF c0])
  then have "c < 2 ^ 24 * 2 powi e" unfolding p24 .
  then have yhi: "y < 2 ^ 24" by (simp add: y_def field_simps)
  have "of_int (2 ^ 23) \<le> y" using ylo by simp
  then have "rne (of_int (2 ^ 23)) \<le> rne y" by (rule rne_mono)
  then have mlo: "2 ^ 23 \<le> m" by (simp only: rne_of_int m_def)
  have "y \<le> of_int (2 ^ 24)" using yhi by simp
  then have "rne y \<le> rne (of_int (2 ^ 24))" by (rule rne_mono)
  then have mhi: "m \<le> 2 ^ 24" by (simp only: rne_of_int m_def)
  have my: "of_int m - 1 / 2 \<le> y" using rne_upper [of y] by (simp add: m_def)
  have m0: "(0::rat) \<le> of_int m" using mlo by simp
  have rc0: "0 \<le> round24 c" using c0 by (intro round24_nonneg) simp
  have "round24 c * b \<le> round24 c * (1 - 1 / 2 ^ 24)"
    using b(2) rc0 by (rule mult_left_mono)
  then have step: "round24 (round24 c * b) \<le> round24 (round24 c * (1 - 1 / 2 ^ 24))"
    by (rule round24_mono)
  have "round24 (round24 c * (1 - 1 / 2 ^ 24)) \<le> c"
  proof -
    consider "m = 2 ^ 23" | "m = 2 ^ 24" | "2 ^ 23 < m" "m < 2 ^ 24" using mlo mhi by linarith
    then show ?thesis
    proof cases
      case 1
      then have r: "round24 c = 2 powi L" by (simp add: rc p23)
      have "(2::rat) powi L * (1 - 1 / 2 ^ 24) \<le> 2 powi L" by (simp add: mult_le_cancel_left1)
      then have "round24 (2 powi L * (1 - 1 / 2 ^ 24)) \<le> round24 (2 powi L)" by (rule round24_mono)
      also have "\<dots> = 2 powi L" using L0 by (intro round24_pow2) simp
      also have "\<dots> \<le> c" unfolding L_def by (rule ilog2_bounds(1) [OF c0])
      finally show ?thesis by (simp add: r)
    next
      case 2
      then have r: "round24 c = 2 ^ 24 * 2 powi e" by (simp add: rc)
      have "round24 c * (1 - 1 / 2 ^ 24) = of_int (2 ^ 24 - 1) * 2 powi e"
        by (simp add: r field_simps)
      moreover have "round24 (of_int (2 ^ 24 - 1) * 2 powi e) = of_int (2 ^ 24 - 1) * 2 powi e"
        using L0 by (intro round24_exact) (simp_all add: e_def)
      moreover have "of_int (2 ^ 24 - 1) * 2 powi e \<le> c"
      proof -
        have "(of_int (2 ^ 24 - 1) :: rat) \<le> of_int m - 1 / 2" using 2 by simp
        with my have "of_int (2 ^ 24 - 1) \<le> y" by linarith
        then have "of_int (2 ^ 24 - 1) * 2 powi e \<le> y * 2 powi e"
          by (rule mult_right_mono) simp
        then show ?thesis by (simp only: cy [symmetric])
      qed
      ultimately show ?thesis by simp
    next
      case 3
      define z :: rat where "z = of_int m - of_int m / 2 ^ 24"
      define x where "x = round24 c * (1 - 1 / 2 ^ 24)"
      have xz: "x = z * 2 powi e" by (simp add: x_def z_def rc field_simps)
      have m1: "(2::rat) ^ 23 + 1 \<le> of_int m"
      proof -
        from 3(1) have "2 ^ 23 + 1 \<le> m" by simp
        then have "(of_int (2 ^ 23 + 1) :: rat) \<le> of_int m" by (simp only: of_int_le_iff)
        then show ?thesis by simp
      qed
      have m2: "(of_int m :: rat) < 2 ^ 24"
      proof -
        from 3(2) have "(of_int m :: rat) < of_int (2 ^ 24)" by (simp only: of_int_less_iff)
        then show ?thesis by simp
      qed
      have half: "1 / 2 < (of_int m :: rat) / 2 ^ 24" using m1 by simp
      have one: "(of_int m :: rat) / 2 ^ 24 < 1" using m2 by simp
      have zlo: "2 ^ 23 \<le> z" using m1 one by (simp add: z_def)
      have zhi: "z < of_int m - 1 / 2" using half by (simp add: z_def)
      have z24: "z < 2 ^ 24" using zhi m2 by linarith
      have x0: "0 < x" using zlo by (simp add: xz)
      have "2 powi L \<le> x" using zlo by (simp add: xz p23)
      moreover have "x < 2 powi (L + 1)" unfolding p24 using z24 by (simp add: xz)
      ultimately have il: "ilog2 x = L" by (intro ilog2_unique [OF x0])
      have "round24 x = of_int (rne (x / 2 powi e)) * 2 powi e"
        using L0 by (simp add: round24_pos_unfold [OF x0] il e_def)
      moreover have "x / 2 powi e = z" by (simp add: xz)
      ultimately have rx: "round24 x = of_int (rne z) * 2 powi e" by simp
      have "of_int (rne z) \<le> z + 1 / 2" by (rule rne_upper)
      with zhi have "(of_int (rne z) :: rat) < of_int m" by linarith
      then have "rne z \<le> m - 1" by (rule int_less_from_rat)
      then have "(of_int (rne z) :: rat) \<le> of_int (m - 1)" by (simp only: of_int_le_iff)
      then have "(of_int (rne z) :: rat) \<le> of_int m - 1" by simp
      with my have "of_int (rne z) \<le> y" by linarith
      then have "of_int (rne z) * 2 powi e \<le> y * 2 powi e"
        by (rule mult_right_mono) simp
      then show ?thesis by (simp only: rx [symmetric] cy [symmetric] x_def)
    qed
  qed
  with step show ?thesis by linarith
qed

subsection \<open>Bounds of the backoff factors\<close>

lemma round24_2_65: "round24 (2 ^ 65) = 2 ^ 65"
  using round24_exact [of 1 65] by simp

lemma round24_half: "round24 (1 / 2) = 1 / 2"
  using round24_exact [of 1 "- 1"] by (simp add: power_int_minus_divide)

lemma round24_2_m65: "round24 (1 / 2 ^ 65) = 1 / 2 ^ 65"
  using round24_exact [of 1 "- 65"] by (simp add: power_int_minus_divide)

lemma scaled_backoff_value:
  assumes n: "n \<noteq> 0" and k: "1 / 2 \<le> k" "k \<le> 1"
  shows "fdiv (fadd (u64_to_float (n - 1)) (Finite k)) (u64_to_float n)
         = Finite (round24 (round24 (round24 (u64_value (n - 1)) + k) / round24 (u64_value n)))"
    and "0 < round24 (round24 (round24 (u64_value (n - 1)) + k) / round24 (u64_value n))"
proof -
  define r where "r = round24 (u64_value (n - 1))"
  define d where "d = round24 (u64_value n)"
  have r: "u64_to_float (n - 1) = Finite r" "0 \<le> r" "r \<le> 2 ^ 64"
    unfolding r_def by (rule u64_to_float_finite)+
  have d: "u64_to_float n = Finite d" "1 \<le> d" "d \<le> 2 ^ 64"
    unfolding d_def by (rule u64_to_float_finite(1), rule u64_to_float_ge_one [OF n], rule u64_to_float_finite(3))
  have lo: "1 / 2 \<le> r + k" using r(2) k(1) by linarith
  have hi: "r + k \<le> 2 ^ 65" using r(3) k(2) by simp
  from to_float32_between [OF lo hi round24_half round24_2_65]
  have s: "to_float32 (r + k) = Finite (round24 (r + k))" "1 / 2 \<le> round24 (r + k)"
    "round24 (r + k) \<le> 2 ^ 65" by simp_all
  define s where "s = round24 (r + k)"
  have d0: "0 < d" using d(2) by linarith
  have "1 / 2 / 2 ^ 64 \<le> s / d"
    using s(2) d(3) d0 by (intro frac_le) (simp_all add: s_def)
  then have lo': "1 / 2 ^ 65 \<le> s / d" by simp
  have "s / d \<le> 2 ^ 65 / 1"
    using s(3) d(2) s(2) by (intro frac_le) (simp_all add: s_def)
  then have hi': "s / d \<le> 2 ^ 65" by simp
  from to_float32_between [OF lo' hi' round24_2_m65 round24_2_65]
  have q: "to_float32 (s / d) = Finite (round24 (s / d))" "1 / 2 ^ 65 \<le> round24 (s / d)" by simp_all
  have "(0::rat) < 1 / 2 ^ 65" by simp
  with q(2) show "0 < round24 (round24 (round24 (u64_value (n - 1)) + k) / round24 (u64_value n))"
    unfolding s_def r_def d_def by linarith
  show "fdiv (fadd (u64_to_float (n - 1)) (Finite k)) (u64_to_float n)
         = Finite (round24 (round24 (round24 (u64_value (n - 1)) + k) / round24 (u64_value n)))"
    using d0 q(1) by (simp add: r(1) d(1) s(1) s_def [symmetric]) (simp add: s_def r_def d_def)
qed

lemma scaled_backoff_finite:
  assumes n: "n \<noteq> 0" and k: "1 / 2 \<le> k" "k \<le> 1"
  shows "\<exists>b. fdiv (fadd (u64_to_float (n - 1)) (Finite k)) (u64_to_float n) = Finite b \<and> 0 < b"
  using scaled_backoff_value [OF assms] by blast

lemma round24_of_int:
  assumes "0 \<le> i" "i < 2 ^ 24"
  shows "round24 (of_int i) = of_int i"
proof (cases "i = 0")
  case True
  then show ?thesis by (simp add: round24_zero)
next
  case False
  with assms have "0 < i" by simp
  from round24_exact [OF this assms(2), of 0] show ?thesis by simp
qed

lemma backoff_sum_bound:
  fixes N :: int
  assumes N: "1 \<le> N" "N \<le> 2 ^ 23" and k: "0 \<le> k" "k < 3 / 4"
  shows "round24 (of_int N - 1 + k) \<le> of_int N - of_int N / 2 ^ 24"
proof (cases "N \<le> 2 ^ 22")
  case True
  have "of_int N - 1 + k \<le> of_int (4 * N - 1) * 2 powi (- 2)"
    using k(2) by (simp add: power_int_minus_divide field_simps)
  then have "round24 (of_int N - 1 + k) \<le> round24 (of_int (4 * N - 1) * 2 powi (- 2))"
    by (rule round24_mono)
  also have "\<dots> = of_int (4 * N - 1) * 2 powi (- 2)"
    using N(1) True by (intro round24_exact) simp_all
  also have "\<dots> = of_int N - 1 / 4" by (simp add: power_int_minus_divide field_simps)
  also have "\<dots> \<le> of_int N - of_int N / 2 ^ 24"
  proof -
    have "(of_int N :: rat) \<le> of_int (2 ^ 22)" using True by (simp only: of_int_le_iff)
    then show ?thesis by simp
  qed
  finally show ?thesis .
next
  case False
  then have N22: "2 ^ 22 + 1 \<le> N" by simp
  define x :: rat where "x = of_int N - 1 + k"
  have "(of_int (2 ^ 22 + 1) :: rat) \<le> of_int N" using N22 by (simp only: of_int_le_iff)
  then have n22: "(2::rat) ^ 22 + 1 \<le> of_int N" by simp
  have "(of_int N :: rat) \<le> of_int (2 ^ 23)" using N(2) by (simp only: of_int_le_iff)
  then have n23: "(of_int N :: rat) \<le> 2 ^ 23" by simp
  have x0: "0 < x" using n22 k(1) by (simp add: x_def)
  have "2 powi 22 \<le> x" using n22 k(1) by (simp add: x_def)
  moreover have "x < 2 powi (22 + 1)" using n23 k(2) by (simp add: x_def)
  ultimately have il: "ilog2 x = 22" by (intro ilog2_unique [OF x0])
  have rx: "round24 x = of_int (rne (x / 2 powi (- 1))) * 2 powi (- 1)"
    by (simp add: round24_pos_unfold [OF x0] il)
  have x2: "x / 2 powi (- 1) = 2 * x" by (simp add: power_int_minus_divide)
  have "of_int (rne (2 * x)) \<le> 2 * x + 1 / 2" by (rule rne_upper)
  also have "\<dots> < of_int (2 * N)" using k(2) by (simp add: x_def)
  finally have "rne (2 * x) \<le> 2 * N - 1" by (rule int_less_from_rat)
  then have "(of_int (rne (2 * x)) :: rat) \<le> of_int (2 * N - 1)" by (simp only: of_int_le_iff)
  then have "(of_int (rne (2 * x)) :: rat) * 2 powi (- 1) \<le> of_int (2 * N - 1) * 2 powi (- 1)"
    by (rule mult_right_mono) simp
  then have "round24 x \<le> of_int N - 1 / 2"
    by (simp add: rx x2 power_int_minus_divide field_simps)
  also have "\<dots> \<le> of_int N - of_int N / 2 ^ 24" using n23 by simp
  finally show ?thesis by (simp add: x_def)
qed

lemma round24_pred_one: "round24 (1 - 1 / 2 ^ 24) = 1 - 1 / 2 ^ 24"
proof -
  have "round24 (of_int (2 ^ 24 - 1) * 2 powi (- 24)) = of_int (2 ^ 24 - 1) * 2 powi (- 24)"
    by (intro round24_exact) simp_all
  moreover have "(of_int (2 ^ 24 - 1) :: rat) * 2 powi (- 24) = 1 - 1 / 2 ^ 24"
    by (simp add: power_int_minus_divide)
  ultimately show ?thesis by simp
qed

lemma u64_value_stream_count:
  assumes "n \<noteq> 0" "n \<le> 8388608"
  shows "u64_value n = of_int (uint n)" "u64_value (n - 1) = of_int (uint n) - 1"
    "1 \<le> uint n" "uint n \<le> 2 ^ 23"
proof -
  show "u64_value n = of_int (uint n)" by (simp only: u64_value_def)
  from assms(1) have "uint n \<noteq> 0" by (simp add: uint_0_iff)
  moreover have "0 \<le> uint n" by simp
  ultimately show n1: "1 \<le> uint n" by linarith
  from assms(2) show "uint n \<le> 2 ^ 23" by (simp add: word_le_def)
  from n1 have "uint (1 :: 64 word) \<le> uint n" by simp
  then have "uint (n - 1) = uint n - uint (1 :: 64 word)" by (simp only: uint_sub_lem)
  then have "uint (n - 1) = uint n - 1" by simp
  then have "(of_int (uint (n - 1)) :: rat) = of_int (uint n - 1)" by (simp only:)
  then show "u64_value (n - 1) = of_int (uint n) - 1"
    unfolding u64_value_def by (simp del: of_int_uint)
qed

lemma scaled_backoff_below_one:
  assumes n: "n \<noteq> 0" "n \<le> 8388608" and k: "1 / 2 \<le> k" "k < 3 / 4"
  shows "round24 (round24 (round24 (u64_value (n - 1)) + k) / round24 (u64_value n)) \<le> 1 - 1 / 2 ^ 24"
proof -
  define N where "N = uint n"
  note v = u64_value_stream_count [OF n, folded N_def]
  have N24: "N < 2 ^ 24" using v(4) by simp
  have rN: "round24 (of_int N) = of_int N" using v(3) N24 by (intro round24_of_int) simp_all
  have "round24 (of_int (N - 1)) = of_int (N - 1)" using v(3) N24 by (intro round24_of_int) simp_all
  then have rN1: "round24 (of_int N - 1) = of_int N - 1" by simp
  have k0: "0 \<le> k" using k(1) by linarith
  have N0: "(0::rat) < of_int N" using v(3) by simp
  have "round24 (of_int N - 1 + k) \<le> of_int N - of_int N / 2 ^ 24"
    using v(3,4) k0 k(2) by (rule backoff_sum_bound)
  moreover have "(0::rat) \<le> of_int N" using N0 by linarith
  ultimately have "round24 (of_int N - 1 + k) / of_int N \<le> (of_int N - of_int N / 2 ^ 24) / of_int N"
    by (rule divide_right_mono)
  also have "\<dots> = 1 - 1 / 2 ^ 24" using N0 by (simp add: field_simps)
  finally have "round24 (round24 (of_int N - 1 + k) / of_int N) \<le> round24 (1 - 1 / 2 ^ 24)"
    by (rule round24_mono)
  then have "round24 (round24 (of_int N - 1 + k) / of_int N) \<le> 1 - 1 / 2 ^ 24"
    by (simp only: round24_pred_one)
  then show ?thesis by (simp only: v(1,2) rN rN1)
qed

lemma Beta_below_one:
  assumes "total_stream_count path_x \<noteq> 0" "total_stream_count path_x \<le> 8388608"
  shows "\<exists>b. Beta path_x = Finite b \<and> 0 < b \<and> b \<le> 1 - 1 / 2 ^ 24"
proof -
  have k: "(1::rat) / 2 \<le> 11744051 / 16777216" "(11744051::rat) / 16777216 < 3 / 4"
    "(11744051::rat) / 16777216 \<le> 1" by simp_all
  from scaled_backoff_value [OF assms(1) k(1,3)] scaled_backoff_below_one [OF assms k(1,2)]
  show ?thesis unfolding Beta_def kBeta_value by blast
qed

lemma scaled_backoff_le_one:
  assumes n: "n \<noteq> 0" "n \<le> 8388608" and k: "0 \<le> k" "k \<le> 1"
  shows "round24 (round24 (round24 (u64_value (n - 1)) + k) / round24 (u64_value n)) \<le> 1"
proof -
  define N where "N = uint n"
  note v = u64_value_stream_count [OF n, folded N_def]
  have N24: "N < 2 ^ 24" using v(4) by simp
  have rN: "round24 (of_int N) = of_int N" using v(3) N24 by (intro round24_of_int) simp_all
  have "round24 (of_int (N - 1)) = of_int (N - 1)" using v(3) N24 by (intro round24_of_int) simp_all
  then have rN1: "round24 (of_int N - 1) = of_int N - 1" by simp
  have N0: "(0::rat) < of_int N" using v(3) by simp
  have "of_int N - 1 + k \<le> of_int N" using k(2) by simp
  then have "round24 (of_int N - 1 + k) \<le> round24 (of_int N)" by (rule round24_mono)
  then have "round24 (of_int N - 1 + k) \<le> of_int N" by (simp only: rN)
  moreover have "(0::rat) \<le> of_int N" using N0 by linarith
  ultimately have "round24 (of_int N - 1 + k) / of_int N \<le> of_int N / of_int N"
    by (rule divide_right_mono)
  also have "\<dots> = 1" using N0 by simp
  finally have "round24 (round24 (of_int N - 1 + k) / of_int N) \<le> round24 1"
    by (rule round24_mono)
  then have "round24 (round24 (of_int N - 1 + k) / of_int N) \<le> 1"
    by (simp only: round24_one)
  then show ?thesis by (simp only: v(1,2) rN rN1)
qed

lemma BetaLastMax_at_most_one:
  assumes "total_stream_count path_x \<noteq> 0" "total_stream_count path_x \<le> 8388608"
  shows "\<exists>b. BetaLastMax path_x = Finite b \<and> 0 < b \<and> b \<le> 1"
proof -
  have k: "(1::rat) / 2 \<le> 7130317 / 8388608" "(0::rat) \<le> 7130317 / 8388608"
    "(7130317::rat) / 8388608 \<le> 1" by simp_all
  from scaled_backoff_value [OF assms(1) k(1,3)] scaled_backoff_le_one [OF assms k(2,3)]
  show ?thesis unfolding BetaLastMax_def kBetaLastMax_value by blast
qed

lemma float_to_u64_floor:
  assumes "0 \<le> r" "r < 2 ^ 64"
  shows "float_to_u64 (Finite r) = Some (word_of_int \<lfloor>r\<rfloor>)"
    and "uint (word_of_int \<lfloor>r\<rfloor> :: uint64_t) = \<lfloor>r\<rfloor>"
proof -
  show "float_to_u64 (Finite r) = Some (word_of_int \<lfloor>r\<rfloor>)"
    using assms by (simp add: float_to_u64_def)
  have "0 \<le> \<lfloor>r\<rfloor>" using assms(1) by simp
  moreover have "\<lfloor>r\<rfloor> < 2 ^ 64" using assms(2) by (simp add: floor_less_iff)
  ultimately show "uint (word_of_int \<lfloor>r\<rfloor> :: uint64_t) = \<lfloor>r\<rfloor>"
    by (simp add: uint_word_of_int take_bit_int_eq_self)
qed

lemma u64_value_lt: "u64_value w < 2 ^ 64"
  using u64_value_bounds(2) [of w] by linarith

lemma floor_u64_value: "\<lfloor>u64_value w\<rfloor> = uint w"
  unfolding u64_value_def by (simp only: floor_of_int)

text \<open>The multiplicative decrease with a factor below 1 returns and does not raise the window.\<close>

lemma decrease_conversion:
  assumes b: "0 \<le> b" "b \<le> 1 - 1 / 2 ^ 24"
  shows "\<exists>w'. float_to_u64 (fmul (u64_to_float w) (Finite b)) = Some w' \<and> w' \<le> w"
proof -
  define C where "C = u64_value w"
  define r where "r = round24 (round24 C * b)"
  have c': "u64_to_float w = Finite (round24 C)" "0 \<le> round24 C"
    unfolding C_def by (rule u64_to_float_finite)+
  have p0: "0 \<le> round24 C * b" using c'(2) b(1) by simp
  have r0: "0 \<le> r" unfolding r_def using p0 by (rule round24_nonneg)
  have rC: "r \<le> C"
  proof (cases "w = 0")
    case True
    then have "C = 0" by (simp add: C_def u64_value_def)
    then show ?thesis by (simp add: r_def round24_zero)
  next
    case False
    then have "1 \<le> C" unfolding C_def by (rule u64_value_ge_one)
    then show ?thesis unfolding r_def using b by (rule round24_scale_down)
  qed
  have r64: "r < 2 ^ 64" using rC u64_value_lt [of w] by (simp add: C_def)
  have "r < 2 ^ 128"
  proof -
    have "(2::rat) ^ 64 \<le> 2 ^ 128" by simp
    with r64 show ?thesis by linarith
  qed
  moreover have "- (2 ^ 128) < r" 
  proof -
    have "- ((2::rat) ^ 128) < 0" by simp
    with r0 show ?thesis by linarith
  qed
  ultimately have "to_float32 (round24 C * b) = Finite r"
    unfolding r_def by (intro to_float32_finite)
  then have f: "fmul (u64_to_float w) (Finite b) = Finite r" by (simp add: c'(1))
  have "\<lfloor>r\<rfloor> \<le> \<lfloor>C\<rfloor>" using rC by (rule floor_mono)
  then have "\<lfloor>r\<rfloor> \<le> uint w" by (simp only: C_def floor_u64_value)
  then have "(word_of_int \<lfloor>r\<rfloor> :: uint64_t) \<le> w"
    by (simp only: word_le_def float_to_u64_floor(2) [OF r0 r64])
  with float_to_u64_floor(1) [OF r0 r64] f show ?thesis by simp
qed

lemma round24_2_63: "round24 (2 ^ 63) = 2 ^ 63"
  using round24_exact [of 1 63] by simp

text \<open>The conversion of the fast-convergence product is defined for windows below \<open>2\<^sup>6\<^sup>3\<close>.\<close>

lemma last_max_conversion:
  assumes b: "0 \<le> b" "b \<le> 1" and w: "w < 2 ^ 63"
  shows "\<exists>w'. float_to_u64 (fmul (Finite b) (u64_to_float w)) = Some w'"
proof -
  define C where "C = u64_value w"
  have c': "u64_to_float w = Finite (round24 C)" "0 \<le> round24 C"
    unfolding C_def by (rule u64_to_float_finite)+
  from w have "uint w < 2 ^ 63" by (simp add: word_less_def)
  then have "uint w \<le> 2 ^ 63" by simp
  then have "(of_int (uint w) :: rat) \<le> of_int (2 ^ 63)" by (simp only: of_int_le_iff)
  then have "C \<le> 2 ^ 63" unfolding C_def u64_value_def by (simp del: of_int_uint)
  then have "round24 C \<le> round24 (2 ^ 63)" by (rule round24_mono)
  then have c63: "round24 C \<le> 2 ^ 63" by (simp only: round24_2_63)
  have lo: "0 \<le> b * round24 C" using b(1) c'(2) by simp
  have "b * round24 C \<le> 1 * round24 C" using b(2) c'(2) by (rule mult_right_mono)
  with c63 have hi: "b * round24 C \<le> 2 ^ 63" by simp
  from to_float32_between [OF lo hi round24_zero round24_2_63]
  have t: "to_float32 (b * round24 C) = Finite (round24 (b * round24 C))"
    "0 \<le> round24 (b * round24 C)" "round24 (b * round24 C) \<le> 2 ^ 63" by simp_all
  have "(2::rat) ^ 63 < 2 ^ 64" by simp
  with t(3) have "round24 (b * round24 C) < 2 ^ 64" by linarith
  from float_to_u64_floor(1) [OF t(2) this] t(1) show ?thesis by (simp add: c'(1))
qed


lemma Alpha_divisor_positive:
  assumes "total_stream_count path_x \<noteq> 0" "total_stream_count path_x \<le> 8388608"
  shows "\<exists>v. fsub (int_to_float 1) (Beta path_x) = Finite v \<and> 0 < v"
proof -
  from Beta_below_one [OF assms] obtain b where
    b: "Beta path_x = Finite b" "0 < b" "b \<le> 1 - 1 / 2 ^ 24" by blast
  have one: "int_to_float 1 = Finite 1"
    by (simp add: int_to_float_def to_float32_def Let_def round24_one)
  have r: "round24 (1 / 2 ^ 24) = 1 / 2 ^ 24"
    using round24_pow2 [of "- 24"] by (simp add: power_int_minus_divide)
  have lo: "1 / 2 ^ 24 \<le> 1 - b" using b(3) by linarith
  have hi: "1 - b \<le> 1" using b(2) by linarith
  from to_float32_between [OF lo hi r round24_one]
  have t: "to_float32 (1 - b) = Finite (round24 (1 - b))" "1 / 2 ^ 24 \<le> round24 (1 - b)"
    by simp_all
  have "(0::rat) < 1 / 2 ^ 24" by simp
  with t(2) have "0 < round24 (1 - b)" by linarith
  with t(1) show ?thesis by (simp add: b(1) one fsub_def fneg_def)
qed

subsection \<open>Slow start and the loss handler\<close>

lemma deliver_slow_start:
  assumes "congestion_alg_state path_x = Some cu_state"
    and "alg_state cu_state = picoquic_cubic_alg_slow_start"
    and "ev_notification e \<noteq> picoquic_congestion_notification_repeat"
    and "ev_notification e \<noteq> picoquic_congestion_notification_timeout"
  shows "\<exists>path_y. deliver k c path_x e = Some path_y
           \<and> congestion_alg_state path_y = Some cu_state
           \<and> cwin path_y = (if ev_notification e = picoquic_congestion_notification_acknowledgement
                             then cwin path_x + ev_nb_bytes_acknowledged e else cwin path_x)"
  using assms
  by (cases "ev_notification e")
     (simp_all add: deliver_def picoquic_cubic_notify_def picoquic_update_pacing_data_def)

lemma slow_start_run:
  assumes "congestion_alg_state path_x = Some cu_state"
    and "alg_state cu_state = picoquic_cubic_alg_slow_start"
    and "loss_free es"
    and "uint (cwin path_x) + acknowledged_total es < 2 ^ 64"
  shows "\<exists>path_y. notify_all kCubeFactor cbrt_u64 path_x es = Some path_y
           \<and> congestion_alg_state path_y = Some cu_state
           \<and> uint (cwin path_y) = uint (cwin path_x) + acknowledged_total es"
  using assms
proof (induction es arbitrary: path_x)
  case Nil
  then show ?case by (simp add: acknowledged_total_def)
next
  case (Cons e es)
  from Cons.prems(3) have e: "ev_notification e \<noteq> picoquic_congestion_notification_repeat"
    "ev_notification e \<noteq> picoquic_congestion_notification_timeout" and es: "loss_free es"
    by (simp_all add: loss_free_def)
  define a where "a = (if ev_notification e = picoquic_congestion_notification_acknowledgement
                       then ev_nb_bytes_acknowledged e else 0)"
  have tot: "acknowledged_total (e # es) = uint a + acknowledged_total es"
    by (simp add: acknowledged_total_def a_def)
  have nn: "0 \<le> acknowledged_total es"
    by (auto simp add: acknowledged_total_def intro!: sum_list_nonneg)
  from deliver_slow_start [OF Cons.prems(1,2) e, where k = kCubeFactor and c = cbrt_u64]
  obtain path_y where
    y: "deliver kCubeFactor cbrt_u64 path_x e = Some path_y"
       "congestion_alg_state path_y = Some cu_state"
    and y': "cwin path_y = (if ev_notification e = picoquic_congestion_notification_acknowledgement
                             then cwin path_x + ev_nb_bytes_acknowledged e else cwin path_x)"
    by blast
  from y' have y3: "cwin path_y = cwin path_x + a" by (simp add: a_def)
  from Cons.prems(4) tot nn have "uint (cwin path_x) + uint a < 2 ^ 64" by simp
  then have u: "uint (cwin path_x + a) = uint (cwin path_x) + uint a"
    by (simp add: uint_add_lem [THEN iffD1])
  with Cons.prems(4) tot y3 have "uint (cwin path_y) + acknowledged_total es < 2 ^ 64" by simp
  from Cons.IH [OF y(2) Cons.prems(2) es this] obtain path_z where
    z: "notify_all kCubeFactor cbrt_u64 path_y es = Some path_z"
       "congestion_alg_state path_z = Some cu_state"
       "uint (cwin path_z) = uint (cwin path_y) + acknowledged_total es"
    by blast
  from y y3 z u tot show ?case by simp
qed

lemma process_loss_cwin:
  assumes "congestion_alg_state path_x = Some cu_state"
    and "picoquic_cubic_process_loss path_x = Some path_y"
  shows "float_to_u64 (fmul (u64_to_float (cwin path_x)) (Beta path_x)) = Some (cwin path_y)"
    and "\<exists>cu'. congestion_alg_state path_y = Some cu' \<and> epoch_start_time cu' = 0
               \<and> alg_state cu' = alg_state cu_state"
  using assms
  by (auto simp add: picoquic_cubic_process_loss_def split: option.splits if_splits)

lemma notify_loss:
  assumes "congestion_alg_state path_x = Some cu_state"
    and "notification = picoquic_congestion_notification_repeat
         \<or> notification = picoquic_congestion_notification_timeout"
  shows "picoquic_cubic_notify kCubeFactor cbrt_u64 path_x notification rtt_measurement
           nb_bytes_acknowledged lost_packet_number current_time
         = map_option picoquic_update_pacing_data
             (picoquic_cubic_process_loss
                (path_x\<lparr> congestion_alg_state :=
                    Some (cu_state\<lparr> alg_state := picoquic_cubic_alg_congestion_avoidance \<rparr>) \<rparr>))"
proof (cases "alg_state cu_state")
  case picoquic_cubic_alg_slow_start
  then show ?thesis using assms by (auto simp add: picoquic_cubic_notify_def)
next
  case picoquic_cubic_alg_congestion_avoidance
  then have "cu_state\<lparr> alg_state := picoquic_cubic_alg_congestion_avoidance \<rparr> = cu_state" by simp
  then have eq: "path_x\<lparr> congestion_alg_state :=
                    Some (cu_state\<lparr> alg_state := picoquic_cubic_alg_congestion_avoidance \<rparr>) \<rparr> = path_x"
    using assms(1) by simp
  show ?thesis unfolding eq
    using assms picoquic_cubic_alg_congestion_avoidance by (auto simp add: picoquic_cubic_notify_def)
qed

lemma Beta_cong: "total_stream_count p = total_stream_count q \<Longrightarrow> Beta p = Beta q"
  by (simp add: Beta_def)

lemma notify_loss_cwin:
  assumes "congestion_alg_state path_x = Some cu_state"
    and "notification = picoquic_congestion_notification_repeat
         \<or> notification = picoquic_congestion_notification_timeout"
    and "picoquic_cubic_notify kCubeFactor cbrt_u64 path_x notification rtt_measurement
           nb_bytes_acknowledged lost_packet_number current_time = Some path_y"
  shows "float_to_u64 (fmul (u64_to_float (cwin path_x)) (Beta path_x)) = Some (cwin path_y)"
    and "\<exists>cu'. congestion_alg_state path_y = Some cu' \<and> epoch_start_time cu' = 0
               \<and> alg_state cu' = picoquic_cubic_alg_congestion_avoidance"
proof -
  let ?q = "path_x\<lparr> congestion_alg_state :=
                    Some (cu_state\<lparr> alg_state := picoquic_cubic_alg_congestion_avoidance \<rparr>) \<rparr>"
  from assms(3) notify_loss [OF assms(1,2)] obtain path_z where
    z: "picoquic_cubic_process_loss ?q = Some path_z" "path_y = picoquic_update_pacing_data path_z"
    by (auto simp add: map_option_case split: option.splits)
  have q: "congestion_alg_state ?q = Some (cu_state\<lparr> alg_state := picoquic_cubic_alg_congestion_avoidance \<rparr>)"
    by simp
  have "Beta ?q = Beta path_x" by (rule Beta_cong) simp
  with process_loss_cwin(1) [OF q z(1)]
  show "float_to_u64 (fmul (u64_to_float (cwin path_x)) (Beta path_x)) = Some (cwin path_y)"
    by (simp add: z(2) picoquic_update_pacing_data_def)
  from process_loss_cwin(2) [OF q z(1)]
  show "\<exists>cu'. congestion_alg_state path_y = Some cu' \<and> epoch_start_time cu' = 0
               \<and> alg_state cu' = picoquic_cubic_alg_congestion_avoidance"
    by (auto simp add: z(2) picoquic_update_pacing_data_def)
qed

lemma process_loss_returns:
  assumes "congestion_alg_state path_x = Some cu_state"
    and "total_stream_count path_x \<noteq> 0" "total_stream_count path_x \<le> 8388608"
    and "cwin path_x < 2 ^ 63"
  shows "\<exists>path_y. picoquic_cubic_process_loss path_x = Some path_y"
proof -
  from BetaLastMax_at_most_one [OF assms(2,3)] obtain bl where
    bl: "BetaLastMax path_x = Finite bl" "0 < bl" "bl \<le> 1" by blast
  from Beta_below_one [OF assms(2,3)] obtain b where
    b: "Beta path_x = Finite b" "0 < b" "b \<le> 1 - 1 / 2 ^ 24" by blast
  have bl0: "0 \<le> bl" using bl(2) by linarith
  have b0: "0 \<le> b" using b(2) by linarith
  from last_max_conversion [OF bl0 bl(3) assms(4)] obtain lm where
    lm: "float_to_u64 (fmul (Finite bl) (u64_to_float (cwin path_x))) = Some lm" by blast
  from decrease_conversion [OF b0 b(3), of "cwin path_x"] obtain w' where
    w': "float_to_u64 (fmul (u64_to_float (cwin path_x)) (Finite b)) = Some w'" by blast
  show ?thesis
    by (simp add: picoquic_cubic_process_loss_def assms(1) bl(1) b(1) lm w')
qed

subsection \<open>The concrete run, evaluated\<close>

lemma example_run_1:
  "notify_all kCubeFactor_init floor_cbrt (snd (picoquic_cubic_init 15360 True example_path))
     [example_timeout]
   = Some \<lparr> cwin = 10752, bytes_in_transit = 15360, rtt_min = 50000, total_stream_count = 1,
       congestion_alg_state = Some \<lparr> alg_state = picoquic_cubic_alg_congestion_avoidance,
          epoch_start_time = 0, estimated_nr_cwnd = 0, last_max_cwnd = 15360, time_of_origin = 0,
          origin_cwnd = 0, last_target_cwnd = 0 \<rparr>,
       pacing_updates = 1 \<rparr>"
  by code_simp

lemma example_run_2:
  "notify_all kCubeFactor_init floor_cbrt (snd (picoquic_cubic_init 15360 True example_path))
     [example_timeout, example_ack_1]
   = Some \<lparr> cwin = 25352, bytes_in_transit = 10752, rtt_min = 50000, total_stream_count = 1,
       congestion_alg_state = Some \<lparr> alg_state = picoquic_cubic_alg_congestion_avoidance,
          epoch_start_time = 950000, estimated_nr_cwnd = 22647, last_max_cwnd = 15360,
          time_of_origin = 2037, origin_cwnd = 15360, last_target_cwnd = 25352 \<rparr>,
       pacing_updates = 2 \<rparr>"
  by code_simp

lemma example_run_3:
  "notify_all kCubeFactor_init floor_cbrt (snd (picoquic_cubic_init 15360 True example_path))
     [example_timeout, example_ack_1, example_ack_2]
   = Some \<lparr> cwin = 22929, bytes_in_transit = 25352, rtt_min = 50000, total_stream_count = 1,
       congestion_alg_state = Some \<lparr> alg_state = picoquic_cubic_alg_congestion_avoidance,
          epoch_start_time = 950000, estimated_nr_cwnd = 22929, last_max_cwnd = 15360,
          time_of_origin = 2037, origin_cwnd = 15360, last_target_cwnd = 16967 \<rparr>,
       pacing_updates = 3 \<rparr>"
  by code_simp

lemma example_notify_timeout:
  "picoquic_cubic_notify kCubeFactor_init floor_cbrt (snd (picoquic_cubic_init 15360 True example_path))
     picoquic_congestion_notification_timeout 0 0 7 900000
   = Some \<lparr> cwin = 10752, bytes_in_transit = 0, rtt_min = 50000, total_stream_count = 1,
       congestion_alg_state = Some \<lparr> alg_state = picoquic_cubic_alg_congestion_avoidance,
          epoch_start_time = 0, estimated_nr_cwnd = 0, last_max_cwnd = 15360, time_of_origin = 0,
          origin_cwnd = 0, last_target_cwnd = 0 \<rparr>,
       pacing_updates = 1 \<rparr>"
  by code_simp

lemma example_process_ack_1:
  "picoquic_cubic_process_ack kCubeFactor_init floor_cbrt
     \<lparr> cwin = 10752, bytes_in_transit = 10752, rtt_min = 50000, total_stream_count = 1,
       congestion_alg_state = Some \<lparr> alg_state = picoquic_cubic_alg_congestion_avoidance,
          epoch_start_time = 0, estimated_nr_cwnd = 0, last_max_cwnd = 15360, time_of_origin = 0,
          origin_cwnd = 0, last_target_cwnd = 0 \<rparr>,
       pacing_updates = 1 \<rparr> 1000000 29200
   = Some \<lparr> cwin = 25352, bytes_in_transit = 10752, rtt_min = 50000, total_stream_count = 1,
       congestion_alg_state = Some \<lparr> alg_state = picoquic_cubic_alg_congestion_avoidance,
          epoch_start_time = 950000, estimated_nr_cwnd = 22647, last_max_cwnd = 15360,
          time_of_origin = 2037, origin_cwnd = 15360, last_target_cwnd = 25352 \<rparr>,
       pacing_updates = 1 \<rparr>"
  by code_simp

lemma example_notify_repeat:
  "picoquic_cubic_notify kCubeFactor_init floor_cbrt
     \<lparr> cwin = 25352, bytes_in_transit = 25352, rtt_min = 50000, total_stream_count = 1,
       congestion_alg_state = Some \<lparr> alg_state = picoquic_cubic_alg_congestion_avoidance,
          epoch_start_time = 950000, estimated_nr_cwnd = 22647, last_max_cwnd = 15360,
          time_of_origin = 2037, origin_cwnd = 15360, last_target_cwnd = 25352 \<rparr>,
       pacing_updates = 2 \<rparr>
     picoquic_congestion_notification_repeat 0 0 9 1100000
   = Some \<lparr> cwin = 17746, bytes_in_transit = 25352, rtt_min = 50000, total_stream_count = 1,
       congestion_alg_state = Some \<lparr> alg_state = picoquic_cubic_alg_congestion_avoidance,
          epoch_start_time = 0, estimated_nr_cwnd = 22647, last_max_cwnd = 25352,
          time_of_origin = 2037, origin_cwnd = 15360, last_target_cwnd = 25352 \<rparr>,
       pacing_updates = 3 \<rparr>"
  by code_simp

subsection \<open>C1: the lower bound of the window\<close>

text \<open>
  C1 as stated fails: \<open>picoquic_cubic_process_loss\<close> applies no floor. After a successful
  init with an initial window of 15360 bytes and one stream, a timeout sets \<open>cwnd\<close> to
  \<open>\<lfloor>15360 \<times> 0.7f\<rfloor> = 10752\<close>, below the initial window.
\<close>

theorem C1_counterexample:
  "map_option cwin
     (notify_all kCubeFactor_init floor_cbrt (snd (picoquic_cubic_init 15360 True example_path))
        [example_timeout]) = Some 10752
   \<and> cwin (snd (picoquic_cubic_init 15360 True example_path)) = 15360
   \<and> (10752 :: uint64_t) < 15360"
  unfolding example_run_1 by (simp add: picoquic_cubic_init_def)

text \<open>
  C1, amended. As long as no \<open>Repeat\<close> or \<open>Timeout\<close> is delivered after a successful init
  (the controller stays in slow start) and the acknowledged bytes do not carry the window
  beyond \<open>2\<^sup>6\<^sup>4\<close>, every call of notify returns and \<open>cwnd\<close> is the initial window plus the
  acknowledged bytes, hence at least the initial window. A \<open>Repeat\<close> or \<open>Timeout\<close>, in either
  state, sets \<open>cwnd\<close> to the single-precision product \<open>cwnd \<times> Beta(n)\<close> truncated to an
  integer, with no floor.
\<close>

theorem C1_slow_start_floor_and_unfloored_decrease:
  "(loss_free es \<and> uint cwin_initial + acknowledged_total es < 2 ^ 64 \<longrightarrow>
      (\<exists>path_y cu_state.
          notify_all kCubeFactor cbrt_u64 (snd (picoquic_cubic_init cwin_initial True path_x)) es
            = Some path_y
          \<and> congestion_alg_state path_y = Some cu_state
          \<and> alg_state cu_state = picoquic_cubic_alg_slow_start
          \<and> uint (cwin path_y) = uint cwin_initial + acknowledged_total es
          \<and> cwin_initial \<le> cwin path_y))
   \<and> (congestion_alg_state path_z \<noteq> None
        \<and> (notification = picoquic_congestion_notification_repeat
             \<or> notification = picoquic_congestion_notification_timeout)
        \<and> picoquic_cubic_notify kCubeFactor cbrt_u64 path_z notification rtt_measurement
              nb_bytes_acknowledged lost_packet_number current_time = Some path_w \<longrightarrow>
        float_to_u64 (fmul (u64_to_float (cwin path_z)) (Beta path_z)) = Some (cwin path_w))"
proof (intro conjI impI)
  assume a: "loss_free es \<and> uint cwin_initial + acknowledged_total es < 2 ^ 64"
  let ?p = "snd (picoquic_cubic_init cwin_initial True path_x)"
  let ?cu = "\<lparr> alg_state = picoquic_cubic_alg_slow_start,
                epoch_start_time = 0, estimated_nr_cwnd = 0, last_max_cwnd = 0,
                time_of_origin = 0, origin_cwnd = 0, last_target_cwnd = 0 \<rparr>"
  have p: "congestion_alg_state ?p = Some ?cu" "cwin ?p = cwin_initial"
    by (simp_all add: picoquic_cubic_init_def)
  have s: "alg_state ?cu = picoquic_cubic_alg_slow_start" by simp
  from a have "uint (cwin ?p) + acknowledged_total es < 2 ^ 64" by (simp add: p(2))
  from slow_start_run [OF p(1) s _ this, of kCubeFactor cbrt_u64] a
  obtain path_y where
    y: "notify_all kCubeFactor cbrt_u64 ?p es = Some path_y"
       "congestion_alg_state path_y = Some ?cu"
       "uint (cwin path_y) = uint cwin_initial + acknowledged_total es"
    by (auto simp add: p(2))
  have "0 \<le> acknowledged_total es"
    by (auto simp add: acknowledged_total_def intro!: sum_list_nonneg)
  with y(3) have "cwin_initial \<le> cwin path_y" by (simp add: word_le_def)
  with y s show "\<exists>path_y cu_state.
          notify_all kCubeFactor cbrt_u64 ?p es = Some path_y
          \<and> congestion_alg_state path_y = Some cu_state
          \<and> alg_state cu_state = picoquic_cubic_alg_slow_start
          \<and> uint (cwin path_y) = uint cwin_initial + acknowledged_total es
          \<and> cwin_initial \<le> cwin path_y"
    by blast
next
  assume b: "congestion_alg_state path_z \<noteq> None
        \<and> (notification = picoquic_congestion_notification_repeat
             \<or> notification = picoquic_congestion_notification_timeout)
        \<and> picoquic_cubic_notify kCubeFactor cbrt_u64 path_z notification rtt_measurement
              nb_bytes_acknowledged lost_packet_number current_time = Some path_w"
  then obtain cu_state where "congestion_alg_state path_z = Some cu_state" by auto
  from notify_loss_cwin(1) [OF this] b
  show "float_to_u64 (fmul (u64_to_float (cwin path_z)) (Beta path_z)) = Some (cwin path_w)"
    by blast
qed

theorem C1_witness:
  "(\<exists>path_y cu_state.
      notify_all kCubeFactor_init floor_cbrt (snd (picoquic_cubic_init 15360 True example_path))
        [example_ack_1] = Some path_y
      \<and> congestion_alg_state path_y = Some cu_state
      \<and> alg_state cu_state = picoquic_cubic_alg_slow_start
      \<and> uint (cwin path_y) = 15360 + 29200
      \<and> 15360 \<le> cwin path_y)
   \<and> float_to_u64 (fmul (u64_to_float (cwin (snd (picoquic_cubic_init 15360 True example_path))))
                         (Beta (snd (picoquic_cubic_init 15360 True example_path)))) = Some 10752"
proof -
  have h1: "loss_free [example_ack_1]
            \<and> uint (15360 :: uint64_t) + acknowledged_total [example_ack_1] < 2 ^ 64"
    by (simp add: loss_free_def acknowledged_total_def example_ack_1_def)
  have a: "acknowledged_total [example_ack_1] = 29200"
    by (simp add: acknowledged_total_def example_ack_1_def)
  have h2: "congestion_alg_state (snd (picoquic_cubic_init 15360 True example_path)) \<noteq> None"
    by (simp add: picoquic_cubic_init_def)
  from C1_slow_start_floor_and_unfloored_decrease
         [of "[example_ack_1]" 15360 kCubeFactor_init floor_cbrt example_path
             "snd (picoquic_cubic_init 15360 True example_path)"
             picoquic_congestion_notification_timeout 0 0 7 900000
             "\<lparr> cwin = 10752, bytes_in_transit = 0, rtt_min = 50000, total_stream_count = 1,
                congestion_alg_state = Some \<lparr> alg_state = picoquic_cubic_alg_congestion_avoidance,
                  epoch_start_time = 0, estimated_nr_cwnd = 0, last_max_cwnd = 15360, time_of_origin = 0,
                  origin_cwnd = 0, last_target_cwnd = 0 \<rparr>,
                pacing_updates = 1 \<rparr>"]
       h1 h2 example_notify_timeout
  show ?thesis by (simp add: a)
qed

subsection \<open>C2: the additive-increase coefficient\<close>

text \<open>
  C2 states that \<open>Alpha(n)\<close> equals \<open>3 n n (1 - Beta(n)) / (1 + Beta(n))\<close>. The function in
  cubic.c divides by \<open>1 - beta\<close> instead of \<open>1 + beta\<close>: for one stream it returns exactly
  \<open>3\<close>, where the stated formula gives \<open>1110257 / 2097152\<close> (about \<open>0.529\<close>).
\<close>

theorem C2_Alpha_one_stream_is_three:
  "Alpha (path_x\<lparr> total_stream_count := 1 \<rparr>) = Finite 3
   \<and> Alpha_spec (path_x\<lparr> total_stream_count := 1 \<rparr>) = Finite (1110257 / 2097152)"
  by (simp add: Alpha_one_stream Alpha_spec_one_stream)

subsection \<open>C3: the elapsed time\<close>

lemma elapsed_time_is_difference:
  "elapsed_time cu_state current_time = current_time - epoch_start_time cu_state"
  by (simp add: elapsed_time_def MICROSEC_PER_SEC_def)

text \<open>
  C3 states that the elapsed time fed into the cubic computation is the time difference
  shifted left by 10 and then divided by \<open>MICROSEC_PER_SEC\<close>. In line 220 the division binds
  tighter than the shift, the shift count is \<open>10 / 1000000 = 0\<close>, and the elapsed time is the
  difference in microseconds: two seconds after the epoch start the code computes
  \<open>2000000\<close>, the stated formula \<open>2048\<close>.
\<close>

theorem C3_elapsed_time_in_microseconds:
  "elapsed_time cu_state current_time = current_time - epoch_start_time cu_state
   \<and> elapsed_time (cu_state\<lparr> epoch_start_time := 1000000 \<rparr>) 3000000 = 2000000
   \<and> elapsed_time_spec 3000000 1000000 = 2048"
  by (simp add: elapsed_time_is_difference elapsed_time_spec_def MICROSEC_PER_SEC_def)

subsection \<open>The origin of the cubic curve\<close>





lemma origin_consistent_init:
  "congestion_alg_state (snd (picoquic_cubic_init cwin_initial allocated path_0)) = Some cu_state
     \<Longrightarrow> origin_consistent cu_state"
  by (auto simp add: picoquic_cubic_init_def origin_consistent_def split: if_splits)

lemma origin_consistent_fields:
  assumes "origin_consistent cu_state"
    and "time_of_origin cu' = time_of_origin cu_state"
    and "origin_cwnd cu' = origin_cwnd cu_state"
  shows "origin_consistent cu'"
  using assms by (simp add: origin_consistent_def)




















text \<open>
  Line 232 is a subtraction in \<open>uint64_t\<close>, with no test of its operands.
\<close>

lemma target_congestion_window_before_origin:
  assumes "\<not> time_of_origin cu_state < elapsed"
  shows "uint (target_congestion_window cu_state elapsed delta)
           = (uint (origin_cwnd cu_state) - uint delta) mod 2 ^ 64"
  using assms by (simp add: target_congestion_window_def uint_word_ariths)

subsection \<open>C4: the subtraction before the origin\<close>



subsection \<open>C5: a stream count of zero\<close>

text \<open>
  C5 as stated fails: nothing replaces a stream count of 0 by 1. With
  \<open>total_stream_count = 0\<close> the divisions by \<open>(float)0\<close> give \<open>Beta = BetaLastMax = +\<infinity>\<close> and
  \<open>Alpha = NaN\<close>, not the values \<open>0.7f\<close>, \<open>0.85f\<close> and \<open>3\<close> that the functions yield for one
  stream.
\<close>

theorem C5_counterexample:
  "Beta (example_path\<lparr> total_stream_count := 0 \<rparr>) = PInf
   \<and> Beta (example_path\<lparr> total_stream_count := 1 \<rparr>) = Finite (11744051 / 16777216)
   \<and> BetaLastMax (example_path\<lparr> total_stream_count := 0 \<rparr>) = PInf
   \<and> BetaLastMax (example_path\<lparr> total_stream_count := 1 \<rparr>) = Finite (7130317 / 8388608)
   \<and> Alpha (example_path\<lparr> total_stream_count := 0 \<rparr>) = NaN
   \<and> Alpha (example_path\<lparr> total_stream_count := 1 \<rparr>) = Finite 3"
  by code_simp

text \<open>
  C5, amended. For \<open>total_stream_count = 0\<close> the scaling primitives do divide by zero:
  \<open>Beta\<close> and \<open>BetaLastMax\<close> are an infinity and \<open>Alpha\<close> is a NaN. For every
  \<open>total_stream_count \<ge> 1\<close> the divisor of \<open>Beta\<close> and \<open>BetaLastMax\<close> is at least 1, and both
  are finite and positive; up to \<open>2\<^sup>2\<^sup>3\<close> streams the divisor \<open>1 - beta\<close> of \<open>Alpha\<close> is finite
  and positive as well.
\<close>

theorem C5_zero_stream_count_divides_by_zero:
  assumes "total_stream_count path_x \<noteq> 0"
  shows "Beta (path_y\<lparr> total_stream_count := 0 \<rparr>) = PInf
         \<and> BetaLastMax (path_y\<lparr> total_stream_count := 0 \<rparr>) = PInf
         \<and> Alpha (path_y\<lparr> total_stream_count := 0 \<rparr>) = NaN
         \<and> (\<exists>d. u64_to_float (total_stream_count path_x) = Finite d \<and> 1 \<le> d)
         \<and> (\<exists>b. Beta path_x = Finite b \<and> 0 < b)
         \<and> (\<exists>b. BetaLastMax path_x = Finite b \<and> 0 < b)
         \<and> (total_stream_count path_x \<le> 8388608 \<longrightarrow>
               (\<exists>v. fsub (int_to_float 1) (Beta path_x) = Finite v \<and> 0 < v))"
proof -
  have z: "fdiv (fadd (u64_to_float (0 - 1)) kBeta) (u64_to_float 0) = PInf"
    "fdiv (fadd (u64_to_float (0 - 1)) kBetaLastMax) (u64_to_float 0) = PInf"
    "fdiv (fmul (u64_to_float (3 * 0 * 0)) (fsub (int_to_float 1) PInf)) (fsub (int_to_float 1) PInf) = NaN"
    by code_simp+
  have b0: "Beta (path_y\<lparr> total_stream_count := 0 \<rparr>) = PInf"
    "BetaLastMax (path_y\<lparr> total_stream_count := 0 \<rparr>) = PInf"
    using z(1,2) by (simp_all add: Beta_def BetaLastMax_def)
  have a0: "Alpha (path_y\<lparr> total_stream_count := 0 \<rparr>) = NaN"
    using z(3) by (simp add: Alpha_def Let_def b0)
  have d: "\<exists>d. u64_to_float (total_stream_count path_x) = Finite d \<and> 1 \<le> d"
    using assms by (simp add: u64_to_float_finite u64_to_float_ge_one)
  have kb: "kBeta = Finite (11744051 / 16777216)" "kBetaLastMax = Finite (7130317 / 8388608)"
    by code_simp+
  have b: "\<exists>b. Beta path_x = Finite b \<and> 0 < b"
    unfolding Beta_def kb by (rule scaled_backoff_finite [OF assms]) simp_all
  have bl: "\<exists>b. BetaLastMax path_x = Finite b \<and> 0 < b"
    unfolding BetaLastMax_def kb by (rule scaled_backoff_finite [OF assms]) simp_all
  have ad: "total_stream_count path_x \<le> 8388608 \<longrightarrow>
               (\<exists>v. fsub (int_to_float 1) (Beta path_x) = Finite v \<and> 0 < v)"
    using Alpha_divisor_positive [OF assms] by blast
  from b0 a0 d b bl ad show ?thesis by simp
qed

theorem C5_witness:
  "Beta (example_path\<lparr> total_stream_count := 0 \<rparr>) = PInf
   \<and> (\<exists>d. u64_to_float (total_stream_count example_path) = Finite d \<and> 1 \<le> d)
   \<and> (\<exists>b. Beta example_path = Finite b \<and> 0 < b)
   \<and> (\<exists>b. BetaLastMax example_path = Finite b \<and> 0 < b)
   \<and> (\<exists>v. fsub (int_to_float 1) (Beta example_path) = Finite v \<and> 0 < v)"
proof -
  have "total_stream_count example_path \<noteq> 0" by (simp add: example_path_def)
  moreover have "total_stream_count example_path \<le> 8388608" by (simp add: example_path_def)
  ultimately show ?thesis
    using C5_zero_stream_count_divides_by_zero [of example_path example_path] by simp
qed

subsection \<open>C6: growth under acknowledgements\<close>

text \<open>
  C6 states that in congestion avoidance, without loss, no acknowledgement decreases
  \<open>cwnd\<close>. In the run of section "A concrete run" the second acknowledgement arrives 247 ms
  after the epoch start; the elapsed time of line 220 is in microseconds, the cube of the
  offset overflows 64 bits in line 227, the target falls to 16967 and \<open>cwnd\<close> drops from
  25352 to the New-Reno estimate 22929. The cube-root argument of that epoch is
  \<open>kCubeFactor \<times> (15360 - 10752) = 8463997440\<close>, whose cube root lies between 2037 and 2038.
\<close>

theorem C6_acknowledgement_shrinks_cwnd:
  "map_option cwin
     (notify_all kCubeFactor_init floor_cbrt (snd (picoquic_cubic_init 15360 True example_path))
        [example_timeout, example_ack_1]) = Some 25352
   \<and> map_option cwin
     (notify_all kCubeFactor_init floor_cbrt (snd (picoquic_cubic_init 15360 True example_path))
        [example_timeout, example_ack_1, example_ack_2]) = Some 22929
   \<and> (2037 :: int) ^ 3 \<le> uint (kCubeFactor_init * (15360 - 10752))
   \<and> uint (kCubeFactor_init * (15360 - 10752)) < 2038 ^ 3"
proof -
  have "kCubeFactor_init * (15360 - 10752) = 8463997440" by code_simp
  then show ?thesis unfolding example_run_2 example_run_3 by simp
qed

subsection \<open>C7: loss in congestion avoidance\<close>

text \<open>
  C7 as stated fails for very large stream counts: from \<open>2\<^sup>2\<^sup>3 + 1\<close> streams on, \<open>Beta(n)\<close>
  rounds to \<open>1.0\<close> in single precision, and the conversion of \<open>cwnd\<close> to \<open>float\<close> may round
  up. With 8388609 streams and \<open>cwnd = 16777219\<close> a timeout in congestion avoidance leaves
  \<open>cwnd = 16777220\<close>.
\<close>

theorem C7_counterexample:
  "map_option cwin
     (picoquic_cubic_notify kCubeFactor_init floor_cbrt
        \<lparr> cwin = 16777219, bytes_in_transit = 16777219, rtt_min = 50000,
          total_stream_count = 8388609,
          congestion_alg_state = Some \<lparr> alg_state = picoquic_cubic_alg_congestion_avoidance,
             epoch_start_time = 950000, estimated_nr_cwnd = 16777219, last_max_cwnd = 16777219,
             time_of_origin = 0, origin_cwnd = 16777219, last_target_cwnd = 16777219 \<rparr>,
          pacing_updates = 0 \<rparr>
        picoquic_congestion_notification_timeout 0 0 7 1000000) = Some 16777220
   \<and> \<not> (16777220 :: uint64_t) \<le> 16777219"
  by code_simp

text \<open>
  C7, amended. For a stream count between 1 and \<open>2\<^sup>2\<^sup>3 = 8388608\<close>, a \<open>Repeat\<close> or \<open>Timeout\<close>
  processed in congestion avoidance leaves, whenever notify returns, \<open>cwnd\<close> not above its
  value before the event and \<open>epoch_start_time = 0\<close>; and notify does return when \<open>cwnd\<close> is
  below \<open>2\<^sup>6\<^sup>3\<close>.
\<close>

theorem C7_loss_in_congestion_avoidance:
  assumes "congestion_alg_state path_x = Some cu_state"
    and "alg_state cu_state = picoquic_cubic_alg_congestion_avoidance"
    and "notification = picoquic_congestion_notification_repeat
         \<or> notification = picoquic_congestion_notification_timeout"
    and "total_stream_count path_x \<noteq> 0"
    and "total_stream_count path_x \<le> 8388608"
  shows "(\<forall>path_y. picoquic_cubic_notify kCubeFactor cbrt_fn path_x notification rtt_measurement
                      nb_bytes_acknowledged lost_packet_number current_time = Some path_y \<longrightarrow>
            cwin path_y \<le> cwin path_x
            \<and> (\<exists>cu'. congestion_alg_state path_y = Some cu' \<and> epoch_start_time cu' = 0))
         \<and> (cwin path_x < 2 ^ 63 \<longrightarrow>
              (\<exists>path_y. picoquic_cubic_notify kCubeFactor cbrt_fn path_x notification rtt_measurement
                           nb_bytes_acknowledged lost_packet_number current_time = Some path_y))"
proof (intro conjI allI impI)
  fix path_y
  assume y: "picoquic_cubic_notify kCubeFactor cbrt_fn path_x notification rtt_measurement
               nb_bytes_acknowledged lost_packet_number current_time = Some path_y"
  from Beta_below_one [OF assms(4,5)] obtain b where
    b: "Beta path_x = Finite b" "0 < b" "b \<le> 1 - 1 / 2 ^ 24" by blast
  have b0: "0 \<le> b" using b(2) by linarith
  from notify_loss_cwin(1) [OF assms(1,3) y]
  have "float_to_u64 (fmul (u64_to_float (cwin path_x)) (Finite b)) = Some (cwin path_y)"
    by (simp only: b(1))
  with decrease_conversion [OF b0 b(3), of "cwin path_x"]
  show "cwin path_y \<le> cwin path_x" by auto
  from notify_loss_cwin(2) [OF assms(1,3) y]
  show "\<exists>cu'. congestion_alg_state path_y = Some cu' \<and> epoch_start_time cu' = 0" by blast
next
  assume c: "cwin path_x < 2 ^ 63"
  from assms(2) have "cu_state\<lparr> alg_state := picoquic_cubic_alg_congestion_avoidance \<rparr> = cu_state"
    by simp
  then have eq: "path_x\<lparr> congestion_alg_state :=
                    Some (cu_state\<lparr> alg_state := picoquic_cubic_alg_congestion_avoidance \<rparr>) \<rparr> = path_x"
    using assms(1) by simp
  from process_loss_returns [OF assms(1,4,5) c] obtain path_z where
    "picoquic_cubic_process_loss path_x = Some path_z" by blast
  with notify_loss [OF assms(1,3), of kCubeFactor cbrt_fn rtt_measurement nb_bytes_acknowledged
                      lost_packet_number current_time]
  show "\<exists>path_y. picoquic_cubic_notify kCubeFactor cbrt_fn path_x notification rtt_measurement
                    nb_bytes_acknowledged lost_packet_number current_time = Some path_y"
    unfolding eq by simp
qed

theorem C7_witness:
  "picoquic_cubic_notify kCubeFactor_init floor_cbrt
     \<lparr> cwin = 25352, bytes_in_transit = 25352, rtt_min = 50000, total_stream_count = 1,
       congestion_alg_state = Some \<lparr> alg_state = picoquic_cubic_alg_congestion_avoidance,
          epoch_start_time = 950000, estimated_nr_cwnd = 22647, last_max_cwnd = 15360,
          time_of_origin = 2037, origin_cwnd = 15360, last_target_cwnd = 25352 \<rparr>,
       pacing_updates = 2 \<rparr>
     picoquic_congestion_notification_repeat 0 0 9 1100000 \<noteq> None
   \<and> (17746 :: uint64_t) \<le> 25352"
proof -
  let ?P = "\<lparr> cwin = 25352, bytes_in_transit = 25352, rtt_min = 50000, total_stream_count = 1,
       congestion_alg_state = Some \<lparr> alg_state = picoquic_cubic_alg_congestion_avoidance,
          epoch_start_time = 950000, estimated_nr_cwnd = 22647, last_max_cwnd = 15360,
          time_of_origin = 2037, origin_cwnd = 15360, last_target_cwnd = 25352 \<rparr>,
       pacing_updates = 2 \<rparr>"
  let ?CU = "\<lparr> alg_state = picoquic_cubic_alg_congestion_avoidance,
          epoch_start_time = 950000, estimated_nr_cwnd = 22647, last_max_cwnd = 15360,
          time_of_origin = 2037, origin_cwnd = 15360, last_target_cwnd = 25352 \<rparr>"
  let ?Q = "\<lparr> cwin = 17746, bytes_in_transit = 25352, rtt_min = 50000, total_stream_count = 1,
       congestion_alg_state = Some \<lparr> alg_state = picoquic_cubic_alg_congestion_avoidance,
          epoch_start_time = 0, estimated_nr_cwnd = 22647, last_max_cwnd = 25352,
          time_of_origin = 2037, origin_cwnd = 15360, last_target_cwnd = 25352 \<rparr>,
       pacing_updates = 3 \<rparr>"
  have h1: "congestion_alg_state ?P = Some ?CU" by simp
  have h2: "alg_state ?CU = picoquic_cubic_alg_congestion_avoidance" by simp
  have h3: "picoquic_congestion_notification_repeat = picoquic_congestion_notification_repeat
            \<or> picoquic_congestion_notification_repeat = picoquic_congestion_notification_timeout"
    by simp
  have h4: "total_stream_count ?P \<noteq> 0" by simp
  have h5: "total_stream_count ?P \<le> 8388608" by simp
  have h6: "cwin ?P < 2 ^ 63" by simp
  note t = C7_loss_in_congestion_avoidance [OF h1 h2 h3 h4 h5, of kCubeFactor_init floor_cbrt 0 0 9 1100000]
  from t h6 have "\<exists>path_y. picoquic_cubic_notify kCubeFactor_init floor_cbrt ?P
        picoquic_congestion_notification_repeat 0 0 9 1100000 = Some path_y" by blast
  moreover from t example_notify_repeat have "cwin ?Q \<le> cwin ?P" by blast
  ultimately show ?thesis by auto
qed

subsection \<open>C8: the application-limited acknowledgement\<close>

text \<open>
  C8: an acknowledgement processed while \<open>bytes_in_transit < cwnd\<close> sets
  \<open>epoch_start_time\<close> to 0 and changes nothing else: \<open>cwnd\<close>, the other fields of the path
  and the other fields of the controller state are as before. Delivered through notify in
  congestion avoidance, the only further effect is the recomputation of pacing.
\<close>

theorem C8_application_limited_ack:
  assumes "congestion_alg_state path_x = Some cu_state"
    and "bytes_in_transit path_x < cwin path_x"
  shows "picoquic_cubic_process_ack kCubeFactor cbrt_fn path_x current_time nb_bytes_acknowledged
         = Some (path_x\<lparr> congestion_alg_state := Some (cu_state\<lparr> epoch_start_time := 0 \<rparr>) \<rparr>)
       \<and> (alg_state cu_state = picoquic_cubic_alg_congestion_avoidance \<longrightarrow>
            picoquic_cubic_notify kCubeFactor cbrt_fn path_x
              picoquic_congestion_notification_acknowledgement rtt_measurement
              nb_bytes_acknowledged lost_packet_number current_time
            = Some (path_x\<lparr> congestion_alg_state := Some (cu_state\<lparr> epoch_start_time := 0 \<rparr>),
                            pacing_updates := Suc (pacing_updates path_x) \<rparr>))"
  using assms
  by (simp add: picoquic_cubic_process_ack_def picoquic_cubic_notify_def picoquic_update_pacing_data_def)

theorem C8_application_limited_ack_witness:
  "picoquic_cubic_process_ack 1836805 floor_cbrt
     \<lparr> cwin = 20000, bytes_in_transit = 10000, rtt_min = 50000, total_stream_count = 1,
       congestion_alg_state = Some \<lparr> alg_state = picoquic_cubic_alg_congestion_avoidance,
          epoch_start_time = 950000, estimated_nr_cwnd = 18000, last_max_cwnd = 30000,
          time_of_origin = 2037, origin_cwnd = 30000, last_target_cwnd = 19000 \<rparr>,
       pacing_updates = 7 \<rparr> 1000000 1460
   = Some \<lparr> cwin = 20000, bytes_in_transit = 10000, rtt_min = 50000, total_stream_count = 1,
       congestion_alg_state = Some \<lparr> alg_state = picoquic_cubic_alg_congestion_avoidance,
          epoch_start_time = 0, estimated_nr_cwnd = 18000, last_max_cwnd = 30000,
          time_of_origin = 2037, origin_cwnd = 30000, last_target_cwnd = 19000 \<rparr>,
       pacing_updates = 7 \<rparr>
   \<and> picoquic_cubic_notify 1836805 floor_cbrt
     \<lparr> cwin = 20000, bytes_in_transit = 10000, rtt_min = 50000, total_stream_count = 1,
       congestion_alg_state = Some \<lparr> alg_state = picoquic_cubic_alg_congestion_avoidance,
          epoch_start_time = 950000, estimated_nr_cwnd = 18000, last_max_cwnd = 30000,
          time_of_origin = 2037, origin_cwnd = 30000, last_target_cwnd = 19000 \<rparr>,
       pacing_updates = 7 \<rparr> picoquic_congestion_notification_acknowledgement 0 1460 0 1000000
   = Some \<lparr> cwin = 20000, bytes_in_transit = 10000, rtt_min = 50000, total_stream_count = 1,
       congestion_alg_state = Some \<lparr> alg_state = picoquic_cubic_alg_congestion_avoidance,
          epoch_start_time = 0, estimated_nr_cwnd = 18000, last_max_cwnd = 30000,
          time_of_origin = 2037, origin_cwnd = 30000, last_target_cwnd = 19000 \<rparr>,
       pacing_updates = 8 \<rparr>"
proof -
  let ?P = "\<lparr> cwin = 20000, bytes_in_transit = 10000, rtt_min = 50000, total_stream_count = 1,
       congestion_alg_state = Some \<lparr> alg_state = picoquic_cubic_alg_congestion_avoidance,
          epoch_start_time = 950000, estimated_nr_cwnd = 18000, last_max_cwnd = 30000,
          time_of_origin = 2037, origin_cwnd = 30000, last_target_cwnd = 19000 \<rparr>,
       pacing_updates = 7 \<rparr>"
  let ?CU = "\<lparr> alg_state = picoquic_cubic_alg_congestion_avoidance,
          epoch_start_time = 950000, estimated_nr_cwnd = 18000, last_max_cwnd = 30000,
          time_of_origin = 2037, origin_cwnd = 30000, last_target_cwnd = 19000 \<rparr>"
  have h1: "congestion_alg_state ?P = Some ?CU" by simp
  have h2: "bytes_in_transit ?P < cwin ?P" by simp
  from C8_application_limited_ack [OF h1 h2, of 1836805 floor_cbrt 1000000 1460 0 0]
  show ?thesis by simp
qed

subsection \<open>C9: failed allocation\<close>

lemma notify_null_slot:
  "congestion_alg_state path_x = None \<Longrightarrow>
   picoquic_cubic_notify kCubeFactor cbrt_u64 path_x notification rtt_measurement
     nb_bytes_acknowledged lost_packet_number current_time = Some path_x"
  by (simp add: picoquic_cubic_notify_def)

lemma notify_all_null_slot:
  "congestion_alg_state path_x = None \<Longrightarrow>
   map_option (\<lambda>q. (congestion_alg_state q, cwin q, pacing_updates q))
     (notify_all kCubeFactor cbrt_u64 path_x es) = Some (None, cwin path_x, pacing_updates path_x)"
proof (induction es arbitrary: path_x)
  case Nil
  then show ?case by simp
next
  case (Cons e es)
  let ?q = "path_x\<lparr> bytes_in_transit := ev_bytes_in_transit e, rtt_min := ev_rtt_min e,
                     total_stream_count := ev_total_stream_count e \<rparr>"
  from Cons.prems have d: "deliver kCubeFactor cbrt_u64 path_x e = Some ?q"
    by (simp add: deliver_def notify_null_slot)
  from Cons.prems have "congestion_alg_state ?q = None" by simp
  from Cons.IH [OF this] d show ?case by simp
qed

text \<open>
  C9: when the allocation in \<open>picoquic_cubic_init\<close> fails, the slot is null and \<open>cwnd\<close> is
  untouched; every later call of \<open>picoquic_cubic_notify\<close>, whatever the notification and its
  arguments, returns the path as it received it (no handler runs, pacing is not recomputed);
  along any sequence of delivered events the slot stays null and \<open>cwnd\<close> keeps its value.
\<close>

theorem C9_failed_init_makes_notify_a_no_op:
  "congestion_alg_state (snd (picoquic_cubic_init cwin_initial False path_x)) = None
   \<and> cwin (snd (picoquic_cubic_init cwin_initial False path_x)) = cwin path_x
   \<and> picoquic_cubic_notify kCubeFactor cbrt_u64 (snd (picoquic_cubic_init cwin_initial False path_x))
        notification rtt_measurement nb_bytes_acknowledged lost_packet_number current_time
      = Some (snd (picoquic_cubic_init cwin_initial False path_x))
   \<and> map_option (\<lambda>q. (congestion_alg_state q, cwin q, pacing_updates q))
        (notify_all kCubeFactor cbrt_u64 (snd (picoquic_cubic_init cwin_initial False path_x)) es)
      = Some (None, cwin path_x, pacing_updates path_x)"
proof -
  let ?p = "snd (picoquic_cubic_init cwin_initial False path_x)"
  have n: "congestion_alg_state ?p = None" by (simp add: picoquic_cubic_init_def)
  have c: "cwin ?p = cwin path_x" "pacing_updates ?p = pacing_updates path_x"
    by (simp_all add: picoquic_cubic_init_def)
  show ?thesis
    using n c notify_null_slot [OF n] notify_all_null_slot [OF n] by simp
qed

subsection \<open>Preservation of the non-zero New-Reno estimate\<close>

lemma nr_estimate_ok_init:
  "nr_estimate_ok (snd (picoquic_cubic_init cwin_initial allocated path_x))"
  by (simp add: nr_estimate_ok_def picoquic_cubic_init_def)

lemma nr_estimate_ok_pacing:
  "nr_estimate_ok (picoquic_update_pacing_data path_x) = nr_estimate_ok path_x"
  by (simp add: nr_estimate_ok_def picoquic_update_pacing_data_def)

lemma nr_estimate_ok_process_ack:
  assumes "nr_estimate_ok path_x"
    and "\<forall>cu. congestion_alg_state path_x = Some cu \<longrightarrow> epoch_start_time cu = 0 \<longrightarrow> cwin path_x \<noteq> 0"
    and "picoquic_cubic_process_ack k c path_x current_time nb_bytes_acknowledged = Some path_y"
  shows "nr_estimate_ok path_y"
proof (cases "congestion_alg_state path_x")
  case None
  with assms(3) have "path_y = path_x" by (simp add: picoquic_cubic_process_ack_def)
  with assms(1) show ?thesis by simp
next
  case (Some cu)
  show ?thesis
  proof (cases "bytes_in_transit path_x < cwin path_x")
    case True
    with assms(3) Some show ?thesis
      by (auto simp add: picoquic_cubic_process_ack_def nr_estimate_ok_def)
  next
    case False
    have nz: "estimated_nr_cwnd (start_epoch k c path_x current_time cu) \<noteq> 0"
      using assms(1,2) Some by (auto simp add: start_epoch_estimate nr_estimate_ok_def)
    from process_ack_Some [OF Some False assms(3)] obtain cu' where
      cu: "congestion_alg_state path_y = Some cu'"
      "new_reno_update path_x nb_bytes_acknowledged
         (estimated_nr_cwnd (start_epoch k c path_x current_time cu)) = Some (estimated_nr_cwnd cu')"
      by blast
    from new_reno_update_nonzero [OF cu(2) nz] cu(1) show ?thesis
      by (simp add: nr_estimate_ok_def)
  qed
qed

lemma nr_estimate_ok_notify:
  assumes "nr_estimate_ok path_x"
    and "\<forall>cu. congestion_alg_state path_x = Some cu \<longrightarrow> epoch_start_time cu = 0 \<longrightarrow> cwin path_x \<noteq> 0"
    and "picoquic_cubic_notify k c path_x notification rtt_measurement nb_bytes_acknowledged
           lost_packet_number current_time = Some path_y"
  shows "nr_estimate_ok path_y"
proof (cases "congestion_alg_state path_x")
  case None
  with assms(3) have "path_y = path_x" by (simp add: picoquic_cubic_notify_def)
  with assms(1) show ?thesis by simp
next
  case (Some cu)
  consider (loss) "notification = picoquic_congestion_notification_repeat
                   \<or> notification = picoquic_congestion_notification_timeout"
    | (ack_ss) "notification = picoquic_congestion_notification_acknowledgement"
               "alg_state cu = picoquic_cubic_alg_slow_start"
    | (ack_ca) "notification = picoquic_congestion_notification_acknowledgement"
               "alg_state cu = picoquic_cubic_alg_congestion_avoidance"
    | (other) "notification = picoquic_congestion_notification_spurious_repeat
               \<or> notification = picoquic_congestion_notification_rtt_measurement
               \<or> notification = picoquic_congestion_notification_other"
    by (cases notification; cases "alg_state cu") auto
  then show ?thesis
  proof cases
    case loss
    from notify_loss_cwin(2) [OF Some loss assms(3)] show ?thesis
      by (auto simp add: nr_estimate_ok_def)
  next
    case ack_ss
    with assms(1,3) Some show ?thesis
      by (auto simp add: picoquic_cubic_notify_def nr_estimate_ok_def picoquic_update_pacing_data_def)
  next
    case ack_ca
    with assms(3) Some obtain path_z where
      z: "picoquic_cubic_process_ack k c path_x current_time nb_bytes_acknowledged = Some path_z"
         "path_y = picoquic_update_pacing_data path_z"
      by (auto simp add: picoquic_cubic_notify_def)
    from nr_estimate_ok_process_ack [OF assms(1,2) z(1)] show ?thesis
      by (simp add: z(2) nr_estimate_ok_pacing)
  next
    case other
    with assms(1,3) Some show ?thesis
      by (cases "alg_state cu")
         (auto simp add: picoquic_cubic_notify_def nr_estimate_ok_def picoquic_update_pacing_data_def)
  qed
qed

subsection \<open>C10: the divisor of the New-Reno update\<close>

text \<open>
  C10 as stated fails in its first part: \<open>estimated_nr_cwnd\<close> is the \<open>cwnd\<close> captured at the
  epoch start only at the acknowledgement that starts the epoch. In the concrete run the
  epoch starts with \<open>cwnd = 10752\<close>; the first acknowledgement leaves
  \<open>estimated_nr_cwnd = 22647\<close>, and that is the divisor of the New-Reno update at the second
  acknowledgement of the same epoch.
\<close>

theorem C10_counterexample:
  "notify_all kCubeFactor_init floor_cbrt (snd (picoquic_cubic_init 15360 True example_path))
     [example_timeout]
   = Some \<lparr> cwin = 10752, bytes_in_transit = 15360, rtt_min = 50000, total_stream_count = 1,
       congestion_alg_state = Some \<lparr> alg_state = picoquic_cubic_alg_congestion_avoidance,
          epoch_start_time = 0, estimated_nr_cwnd = 0, last_max_cwnd = 15360, time_of_origin = 0,
          origin_cwnd = 0, last_target_cwnd = 0 \<rparr>,
       pacing_updates = 1 \<rparr>
   \<and> notify_all kCubeFactor_init floor_cbrt (snd (picoquic_cubic_init 15360 True example_path))
     [example_timeout, example_ack_1]
   = Some \<lparr> cwin = 25352, bytes_in_transit = 10752, rtt_min = 50000, total_stream_count = 1,
       congestion_alg_state = Some \<lparr> alg_state = picoquic_cubic_alg_congestion_avoidance,
          epoch_start_time = 950000, estimated_nr_cwnd = 22647, last_max_cwnd = 15360,
          time_of_origin = 2037, origin_cwnd = 15360, last_target_cwnd = 25352 \<rparr>,
       pacing_updates = 2 \<rparr>
   \<and> estimated_nr_cwnd
        (start_epoch kCubeFactor_init floor_cbrt
           \<lparr> cwin = 25352, bytes_in_transit = 25352, rtt_min = 50000, total_stream_count = 1,
             congestion_alg_state = Some \<lparr> alg_state = picoquic_cubic_alg_congestion_avoidance,
                epoch_start_time = 950000, estimated_nr_cwnd = 22647, last_max_cwnd = 15360,
                time_of_origin = 2037, origin_cwnd = 15360, last_target_cwnd = 25352 \<rparr>,
             pacing_updates = 2 \<rparr>
           1197000
           \<lparr> alg_state = picoquic_cubic_alg_congestion_avoidance,
             epoch_start_time = 950000, estimated_nr_cwnd = 22647, last_max_cwnd = 15360,
             time_of_origin = 2037, origin_cwnd = 15360, last_target_cwnd = 25352 \<rparr>) = 22647
   \<and> (22647 :: uint64_t) \<noteq> 10752"
  unfolding example_run_1 example_run_2 by (simp add: start_epoch_def)

text \<open>
  C10, amended. When \<open>picoquic_cubic_process_ack\<close> reaches the New-Reno update, the divisor
  \<open>estimated_nr_cwnd\<close> is the \<open>cwnd\<close> captured at the epoch start if this acknowledgement
  starts the epoch, and otherwise the value the previous update of the epoch left. If
  \<open>cwnd\<close> is positive whenever an epoch starts, and the estimate was non-zero when an
  epoch was already running, the divisor is non-zero; and whenever the update returns,
  the new estimate is non-zero again. That condition on the state, \<open>nr_estimate_ok\<close>, holds
  after init and is kept by every call of notify made with a positive \<open>cwnd\<close> when no
  epoch is running, so along such an execution the division never divides by zero.
\<close>

theorem C10_new_reno_divisor:
  assumes "congestion_alg_state path_x = Some cu_state"
    and "\<not> bytes_in_transit path_x < cwin path_x"
    and "epoch_start_time cu_state = 0 \<longrightarrow> cwin path_x \<noteq> 0"
    and "nr_estimate_ok path_x"
  shows "estimated_nr_cwnd (start_epoch kCubeFactor cbrt_u64 path_x current_time cu_state)
           = (if epoch_start_time cu_state = 0 then cwin path_x else estimated_nr_cwnd cu_state)
         \<and> estimated_nr_cwnd (start_epoch kCubeFactor cbrt_u64 path_x current_time cu_state) \<noteq> 0
         \<and> (\<forall>path_y. picoquic_cubic_process_ack kCubeFactor cbrt_u64 path_x current_time
                          nb_bytes_acknowledged = Some path_y \<longrightarrow>
               (\<exists>cu'. congestion_alg_state path_y = Some cu'
                      \<and> new_reno_update path_x nb_bytes_acknowledged
                           (estimated_nr_cwnd (start_epoch kCubeFactor cbrt_u64 path_x current_time cu_state))
                          = Some (estimated_nr_cwnd cu')
                      \<and> estimated_nr_cwnd cu' \<noteq> 0)
               \<and> nr_estimate_ok path_y)
         \<and> nr_estimate_ok (snd (picoquic_cubic_init cwin_initial allocated path_i))
         \<and> (\<forall>path_v path_w notification rtt_measurement acked lost_packet_number now.
               nr_estimate_ok path_v
               \<and> (\<forall>cu. congestion_alg_state path_v = Some cu \<longrightarrow> epoch_start_time cu = 0
                      \<longrightarrow> cwin path_v \<noteq> 0)
               \<and> picoquic_cubic_notify kCubeFactor cbrt_u64 path_v notification rtt_measurement
                     acked lost_packet_number now = Some path_w
               \<longrightarrow> nr_estimate_ok path_w)"
proof -
  let ?d = "estimated_nr_cwnd (start_epoch kCubeFactor cbrt_u64 path_x current_time cu_state)"
  have nz: "?d \<noteq> 0"
    using assms(1,3,4) by (auto simp add: start_epoch_estimate nr_estimate_ok_def)
  have "\<exists>cu'. congestion_alg_state path_y = Some cu'
              \<and> new_reno_update path_x nb_bytes_acknowledged ?d = Some (estimated_nr_cwnd cu')
              \<and> estimated_nr_cwnd cu' \<noteq> 0"
    if "picoquic_cubic_process_ack kCubeFactor cbrt_u64 path_x current_time nb_bytes_acknowledged = Some path_y"
    for path_y
  proof -
    from process_ack_Some [OF assms(1,2) that] obtain cu' where
      cu: "congestion_alg_state path_y = Some cu'"
      "new_reno_update path_x nb_bytes_acknowledged ?d = Some (estimated_nr_cwnd cu')"
      by blast
    from new_reno_update_nonzero [OF cu(2) nz] cu show ?thesis by blast
  qed
  then have step: "estimated_nr_cwnd (start_epoch kCubeFactor cbrt_u64 path_x current_time cu_state)
           = (if epoch_start_time cu_state = 0 then cwin path_x else estimated_nr_cwnd cu_state)
         \<and> ?d \<noteq> 0
         \<and> (\<forall>path_y. picoquic_cubic_process_ack kCubeFactor cbrt_u64 path_x current_time
                          nb_bytes_acknowledged = Some path_y \<longrightarrow>
               (\<exists>cu'. congestion_alg_state path_y = Some cu'
                      \<and> new_reno_update path_x nb_bytes_acknowledged ?d = Some (estimated_nr_cwnd cu')
                      \<and> estimated_nr_cwnd cu' \<noteq> 0)
               \<and> nr_estimate_ok path_y)"
    using nz by (auto simp add: start_epoch_estimate nr_estimate_ok_def)
  have run: "\<forall>path_v path_w notification rtt_measurement acked lost_packet_number now.
               nr_estimate_ok path_v
               \<and> (\<forall>cu. congestion_alg_state path_v = Some cu \<longrightarrow> epoch_start_time cu = 0
                      \<longrightarrow> cwin path_v \<noteq> 0)
               \<and> picoquic_cubic_notify kCubeFactor cbrt_u64 path_v notification rtt_measurement
                     acked lost_packet_number now = Some path_w
               \<longrightarrow> nr_estimate_ok path_w"
    using nr_estimate_ok_notify by blast
  from step nr_estimate_ok_init run show ?thesis by blast
qed

theorem C10_witness:
  "estimated_nr_cwnd
     (start_epoch kCubeFactor_init floor_cbrt
        \<lparr> cwin = 10752, bytes_in_transit = 10752, rtt_min = 50000, total_stream_count = 1,
          congestion_alg_state = Some \<lparr> alg_state = picoquic_cubic_alg_congestion_avoidance,
             epoch_start_time = 0, estimated_nr_cwnd = 0, last_max_cwnd = 15360, time_of_origin = 0,
             origin_cwnd = 0, last_target_cwnd = 0 \<rparr>,
          pacing_updates = 1 \<rparr>
        1000000
        \<lparr> alg_state = picoquic_cubic_alg_congestion_avoidance,
          epoch_start_time = 0, estimated_nr_cwnd = 0, last_max_cwnd = 15360, time_of_origin = 0,
          origin_cwnd = 0, last_target_cwnd = 0 \<rparr>) = 10752
   \<and> new_reno_update
        \<lparr> cwin = 10752, bytes_in_transit = 10752, rtt_min = 50000, total_stream_count = 1,
          congestion_alg_state = Some \<lparr> alg_state = picoquic_cubic_alg_congestion_avoidance,
             epoch_start_time = 0, estimated_nr_cwnd = 0, last_max_cwnd = 15360, time_of_origin = 0,
             origin_cwnd = 0, last_target_cwnd = 0 \<rparr>,
          pacing_updates = 1 \<rparr> 29200 10752 = Some 22647
   \<and> nr_estimate_ok
        \<lparr> cwin = 25352, bytes_in_transit = 10752, rtt_min = 50000, total_stream_count = 1,
          congestion_alg_state = Some \<lparr> alg_state = picoquic_cubic_alg_congestion_avoidance,
             epoch_start_time = 950000, estimated_nr_cwnd = 22647, last_max_cwnd = 15360,
             time_of_origin = 2037, origin_cwnd = 15360, last_target_cwnd = 25352 \<rparr>,
          pacing_updates = 1 \<rparr>"
proof -
  let ?P = "\<lparr> cwin = 10752, bytes_in_transit = 10752, rtt_min = 50000, total_stream_count = 1,
              congestion_alg_state = Some \<lparr> alg_state = picoquic_cubic_alg_congestion_avoidance,
                epoch_start_time = 0, estimated_nr_cwnd = 0, last_max_cwnd = 15360, time_of_origin = 0,
                origin_cwnd = 0, last_target_cwnd = 0 \<rparr>,
              pacing_updates = 1 \<rparr>"
  let ?CU = "\<lparr> alg_state = picoquic_cubic_alg_congestion_avoidance,
               epoch_start_time = 0, estimated_nr_cwnd = 0, last_max_cwnd = 15360, time_of_origin = 0,
               origin_cwnd = 0, last_target_cwnd = 0 \<rparr>"
  let ?Q = "\<lparr> cwin = 25352, bytes_in_transit = 10752, rtt_min = 50000, total_stream_count = 1,
              congestion_alg_state = Some \<lparr> alg_state = picoquic_cubic_alg_congestion_avoidance,
                epoch_start_time = 950000, estimated_nr_cwnd = 22647, last_max_cwnd = 15360,
                time_of_origin = 2037, origin_cwnd = 15360, last_target_cwnd = 25352 \<rparr>,
              pacing_updates = 1 \<rparr>"
  have h1: "congestion_alg_state ?P = Some ?CU" by simp
  have h2: "\<not> bytes_in_transit ?P < cwin ?P" by simp
  have h3: "epoch_start_time ?CU = 0 \<longrightarrow> cwin ?P \<noteq> 0" by simp
  have h4: "nr_estimate_ok ?P" by (simp add: nr_estimate_ok_def)
  note t = C10_new_reno_divisor [OF h1 h2 h3 h4, of kCubeFactor_init floor_cbrt 1000000 29200]
  from t have e: "estimated_nr_cwnd (start_epoch kCubeFactor_init floor_cbrt ?P 1000000 ?CU) = 10752"
    by simp
  from t have "picoquic_cubic_process_ack kCubeFactor_init floor_cbrt ?P 1000000 29200 = Some ?Q \<longrightarrow>
      (\<exists>cu'. congestion_alg_state ?Q = Some cu'
         \<and> new_reno_update ?P 29200
              (estimated_nr_cwnd (start_epoch kCubeFactor_init floor_cbrt ?P 1000000 ?CU))
             = Some (estimated_nr_cwnd cu')
         \<and> estimated_nr_cwnd cu' \<noteq> 0)
      \<and> nr_estimate_ok ?Q"
    by blast
  with example_process_ack_1 have "new_reno_update ?P 29200 10752 = Some 22647 \<and> nr_estimate_ok ?Q"
    unfolding e by auto
  with e show ?thesis by simp
qed

end
